theory Spec2Isabelle
  imports Complex_Main "HOL-Library.AList"
begin

section \<open>Basic data: nodes, edge attributes, errors\<close>

text \<open>
  The road network is a networkx multigraph whose nodes are OSM node ids (integers) and
  whose edges carry a dictionary of string attributes (\<open>highway\<close>, \<open>name\<close>,
  \<open>junction\<close>, ...). An edge dictionary is a partial map from attribute names to values.
\<close>

type_synonym node = nat
type_synonym attrs = "string \<rightharpoonup> string"

text \<open>
  The Python exceptions that the modelled code can raise. \<open>OutOfFuel\<close> is not an
  exception: a \<open>while\<close> loop of the source is run for a bounded number of iterations,
  and \<open>OutOfFuel\<close> says that the bound was reached before the loop returned.
\<close>

datatype error = KeyError | IndexError | OutOfFuel

text \<open>
  \<open>get_highway_classification\<close> is duck-typed on its argument: the callers in
  \<open>get_radius\<close> and \<open>get_max_highway_classification_other\<close> pass the node pair
  \<open>(center, nb)\<close>, while the body reads it like an attribute dictionary.
\<close>

datatype edge_arg = NodePair node node | EdgeData attrs

section \<open>Crossroad: the two distance tables (crossroad.py, lines 15-37)\<close>

definition max_distance_boundary_polyline :: "(string \<times> real) list" where
  "max_distance_boundary_polyline =
     [(''motorway'', 100), (''trunk'', 100), (''primary'', 80), (''secondary'', 80),
      (''tertiary'', 50), (''unclassified'', 30), (''residential'', 30),
      (''living_street'', 25), (''service'', 25), (''default'', 25)]"

definition min_distance_boundary_polyline :: "(string \<times> real) list" where
  "min_distance_boundary_polyline =
     [(''motorway'', 100), (''trunk'', 100), (''primary'', 50), (''secondary'', 30),
      (''tertiary'', 25), (''unclassified'', 16), (''residential'', 16),
      (''living_street'', 16), (''service'', 12), (''default'', 12)]"

text \<open>\<open>k in d\<close> for a dictionary \<open>d\<close> kept as an association list.\<close>

definition in_table :: "string \<Rightarrow> (string \<times> 'v) list \<Rightarrow> bool" where
  "in_table k d = (map_of d k \<noteq> None)"

text \<open>\<open>d[k]\<close>: a missing key raises KeyError.\<close>

definition table_get :: "(string \<times> 'v) list \<Rightarrow> string \<Rightarrow> error + 'v" where
  "table_get d k = (case map_of d k of None \<Rightarrow> Inl KeyError | Some v \<Rightarrow> Inr v)"

section \<open>get_highway_classification (crossroad.py, lines 180-189)\<close>

text \<open>
  On a node pair the test \<open>"highway" in edge\<close> is tuple membership; node ids are
  integers, so it is false and the function returns \<open>"default"\<close>.
\<close>

fun get_highway_classification :: "edge_arg \<Rightarrow> string" where
  "get_highway_classification (NodePair a b) = ''default''"
| "get_highway_classification (EdgeData edge) =
     (case edge ''highway'' of
        None \<Rightarrow> ''default''
      | Some highway0 \<Rightarrow>
          (let highway_link = highway0 @ ''_link'';
               highway1 = (if in_table highway_link max_distance_boundary_polyline
                           then highway_link else highway0);
               highway2 = (if \<not> in_table highway1 max_distance_boundary_polyline
                           then ''default'' else highway1)
           in highway2))"

text \<open>
  The reference normalization, written after the specification's words: a tag of the
  table maps to itself, a \<open>_link\<close> variant whose base class is in the table maps to the
  base class, everything else (and a missing tag) maps to \<open>default\<close>.
\<close>

definition strip_link :: "string \<Rightarrow> string option" where
  "strip_link s =
     (if 5 \<le> length s \<and> drop (length s - 5) s = ''_link''
      then Some (take (length s - 5) s) else None)"

definition spec_highway_classification :: "attrs \<Rightarrow> string" where
  "spec_highway_classification edge =
     (case edge ''highway'' of
        None \<Rightarrow> ''default''
      | Some tag \<Rightarrow>
          if in_table tag max_distance_boundary_polyline then tag
          else (case strip_link tag of
                  Some base \<Rightarrow>
                    if in_table base max_distance_boundary_polyline then base else ''default''
                | None \<Rightarrow> ''default''))"

section \<open>Results, errors and Python list indexing\<close>

text \<open>
  A computation either raises (\<open>Inl\<close>) or returns (\<open>Inr\<close>). \<open>bind_res\<close> runs the
  next statement only when the previous one returned; \<open>mapM_res\<close> is a list comprehension
  whose body may raise; \<open>foldM_res\<close> is a \<open>for\<close> loop over a list that threads the
  loop's variables and stops at the first exception.
\<close>

definition bind_res :: "error + 'a \<Rightarrow> ('a \<Rightarrow> error + 'b) \<Rightarrow> error + 'b" where
  "bind_res m f = (case m of Inl e \<Rightarrow> Inl e | Inr x \<Rightarrow> f x)"

fun mapM_res :: "('a \<Rightarrow> error + 'b) \<Rightarrow> 'a list \<Rightarrow> error + 'b list" where
  "mapM_res f [] = Inr []"
| "mapM_res f (x # xs) =
     (case f x of
        Inl e \<Rightarrow> Inl e
      | Inr y \<Rightarrow> (case mapM_res f xs of Inl e \<Rightarrow> Inl e | Inr ys \<Rightarrow> Inr (y # ys)))"

fun foldM_res :: "('s \<Rightarrow> 'a \<Rightarrow> error + 's) \<Rightarrow> 's \<Rightarrow> 'a list \<Rightarrow> error + 's" where
  "foldM_res f s [] = Inr s"
| "foldM_res f s (x # xs) =
     (case f s x of Inl e \<Rightarrow> Inl e | Inr s' \<Rightarrow> foldM_res f s' xs)"

text \<open>\<open>xs[i]\<close>: a negative index counts from the end, an index out of range raises.\<close>

definition py_index :: "'a list \<Rightarrow> int \<Rightarrow> error + 'a" where
  "py_index xs i =
     (if 0 \<le> i \<and> i < int (length xs) then Inr (xs ! nat i)
      else if i < 0 \<and> - int (length xs) \<le> i then Inr (xs ! nat (int (length xs) + i))
      else Inl IndexError)"

section \<open>The road graph and the external collaborators\<close>

text \<open>
  The networkx graph, read-only during segmentation: \<open>g_nodes\<close> is \<open>G.nodes\<close> in
  iteration order, \<open>g_neighbors n\<close> is \<open>list(G.neighbors(n))\<close>, and \<open>g_edge p1 p2\<close>
  is the attribute dictionary \<open>G[p1][p2][0]\<close>, \<open>None\<close> when the lookup raises KeyError.
\<close>

record graph =
  g_nodes :: "node list"
  g_neighbors :: "node \<Rightarrow> node list"
  g_edge :: "node \<Rightarrow> node \<Rightarrow> attrs option"

text \<open>A branch description is the value object \<open>BranchDescription(angle, name)\<close>.\<close>

datatype branch_description = BranchDescription (angle: real) (name: "string option")

text \<open>
  The modules \<open>reliability\<close>, \<open>utils\<close> and \<open>branch_description\<close>, and the
  boundary test of \<open>region\<close>, are external collaborators of \<open>crossroad.py\<close>; the
  functions of theirs that it calls are parameters of the model.
  \<open>get_path_to_biffurcation\<close> takes the optional radius as an option.

  Distances, bearings and widths are Python floats. A float is kept as the real number
  that it denotes: comparisons and \<open>max\<close> are exact on floats, and so is the arithmetic
  of the integers of the two tables. The sum, the quotient and the product of floats are
  rounded, so they are no operations on the reals: \<open>float_add\<close>, \<open>float_div\<close> and
  \<open>float_mul\<close> are parameters of the model as well, and nothing is assumed of them.
\<close>

record env =
  is_weakly_boundary :: "graph \<Rightarrow> node \<Rightarrow> bool"
  is_strong_boundary :: "graph \<Rightarrow> node \<Rightarrow> bool"
  is_weakly_in_crossroad :: "graph \<Rightarrow> node \<Rightarrow> bool"
  is_strong_in_crossroad :: "graph \<Rightarrow> node \<Rightarrow> bool"
  is_weakly_in_crossroad_edge :: "graph \<Rightarrow> node \<times> node \<Rightarrow> bool"
  distance :: "graph \<Rightarrow> node \<Rightarrow> node \<Rightarrow> real"
  bearing :: "graph \<Rightarrow> node \<Rightarrow> node \<Rightarrow> real"
  path_length :: "graph \<Rightarrow> node list \<Rightarrow> real"
  get_path_to_biffurcation :: "graph \<Rightarrow> node \<Rightarrow> node \<Rightarrow> real option \<Rightarrow> node list"
  is_boundary_node :: "graph \<Rightarrow> node list \<Rightarrow> (node \<times> node) list \<Rightarrow> node \<Rightarrow> bool"
  is_similar :: "branch_description \<Rightarrow> branch_description \<Rightarrow> bool"
  is_orthogonal :: "branch_description \<Rightarrow> real \<Rightarrow> bool"
  float_add :: "real \<Rightarrow> real \<Rightarrow> real"
  float_div :: "real \<Rightarrow> real \<Rightarrow> real"
  float_mul :: "real \<Rightarrow> real \<Rightarrow> real"

section \<open>Region: the container of member nodes and edges\<close>

text \<open>
  A crossroad is a region (identifier, member nodes, member edges) with its list of
  branches. The region labels that the segmentation writes on the graph, the counter
  of region identifiers and the lines printed so far form the mutable state.
\<close>

record crossroad =
  region_id :: nat
  nodes :: "node list"
  edges :: "(node \<times> node) list"
  branches :: "branch_description list"

record world =
  node_region :: "node \<rightharpoonup> nat"
  edge_region :: "(node \<times> node) \<rightharpoonup> nat"
  next_id :: nat
  stdout :: "string list"

text \<open>An edge is undirected: its label is stored under the ordered pair of its ends.\<close>

definition edge_key :: "node \<times> node \<Rightarrow> node \<times> node" where
  "edge_key e = (min (fst e) (snd e), max (fst e) (snd e))"

text \<open>
  Modelled from the spec: \<open>Region.__init__\<close> (region.py is missing). Every region has
  a unique id assigned at creation and starts with no member.
\<close>

definition Region_init :: "world \<Rightarrow> crossroad \<times> world" where
  "Region_init w =
     (\<lparr>region_id = next_id w, nodes = [], edges = [], branches = []\<rparr>,
      w\<lparr>next_id := Suc (next_id w)\<rparr>)"

text \<open>
  Modelled from the spec: \<open>Region.unknown_region_node\<close>,
  \<open>Region.unknown_region_node_in_graph\<close> and \<open>Region.unknown_region_edge\<close>
  (region.py is missing). A node or an edge is in the unknown region when no region
  claims it.
\<close>

definition unknown_region_node :: "world \<Rightarrow> node \<Rightarrow> bool" where
  "unknown_region_node w n = (node_region w n = None)"

definition unknown_region_edge :: "world \<Rightarrow> node \<times> node \<Rightarrow> bool" where
  "unknown_region_edge w e = (edge_region w (edge_key e) = None)"

text \<open>
  Modelled from the spec: \<open>Region.has_edge\<close> (region.py is missing). The edge, an
  undirected segment, is a member edge of the region.
\<close>

definition has_edge :: "crossroad \<Rightarrow> node \<times> node \<Rightarrow> bool" where
  "has_edge c e = (e \<in> set (edges c) \<or> (snd e, fst e) \<in> set (edges c))"

text \<open>
  Modelled from the spec: \<open>Region.add_node\<close> (region.py is missing). The node becomes
  a member (the members form a set, kept in insertion order) and the region claims it.
\<close>

definition add_node :: "crossroad \<times> world \<Rightarrow> node \<Rightarrow> crossroad \<times> world" where
  "add_node cw n =
     (let c = fst cw; w = snd cw in
      (if n \<in> set (nodes c) then c else c\<lparr>nodes := nodes c @ [n]\<rparr>,
       w\<lparr>node_region := (node_region w)(n \<mapsto> region_id c)\<rparr>))"

text \<open>
  Modelled from the spec: \<open>Region.add_edge\<close> (region.py is missing), the edge
  counterpart of \<open>add_node\<close>.
\<close>

definition add_edge :: "crossroad \<times> world \<Rightarrow> node \<times> node \<Rightarrow> crossroad \<times> world" where
  "add_edge cw e =
     (let c = fst cw; w = snd cw in
      (if has_edge c e then c else c\<lparr>edges := edges c @ [e]\<rparr>,
       w\<lparr>edge_region := (edge_region w)(edge_key e \<mapsto> region_id c)\<rparr>))"

text \<open>
  Modelled from the spec: \<open>Region.add_path\<close> (region.py is missing). Path insertion:
  every node of the path and every edge between two consecutive nodes become members.
\<close>

definition add_path :: "crossroad \<times> world \<Rightarrow> node list \<Rightarrow> crossroad \<times> world" where
  "add_path cw path = fold (\<lambda>e s. add_edge s e) (zip path (tl path)) (fold (\<lambda>n s. add_node s n) path cw)"

text \<open>
  Modelled from the spec: \<open>Region.clear_region\<close> (region.py is missing). The region
  is discarded: it releases its claim on its nodes and edges and has no member left.
\<close>

definition clear_region :: "crossroad \<times> world \<Rightarrow> crossroad \<times> world" where
  "clear_region cw =
     (let c = fst cw; w = snd cw in
      (c\<lparr>nodes := [], edges := []\<rparr>,
       w\<lparr>node_region := (\<lambda>n. if n \<in> set (nodes c) then None else node_region w n),
         edge_region := (\<lambda>k. if k \<in> edge_key ` set (edges c) then None else edge_region w k)\<rparr>))"

section \<open>Crossroad: centre, radius and branches (crossroad.py, lines 43-100)\<close>

definition getCenter :: "crossroad \<Rightarrow> error + node" where
  "getCenter c = py_index (nodes c) 0"

definition get_branch_description_from_edge ::
  "env \<Rightarrow> graph \<Rightarrow> crossroad \<Rightarrow> node \<times> node \<Rightarrow> error + branch_description" where
  "get_branch_description_from_edge env G c edge =
     (case g_edge G (fst edge) (snd edge) of
        None \<Rightarrow> Inl KeyError
      | Some e \<Rightarrow>
          bind_res (getCenter c) (\<lambda>center.
            Inr (BranchDescription (bearing env G center (snd edge)) (e ''name''))))"

definition get_branches_description_from_node ::
  "env \<Rightarrow> graph \<Rightarrow> crossroad \<Rightarrow> node \<Rightarrow> error + branch_description list" where
  "get_branches_description_from_node env G c border =
     (let es = map (\<lambda>nb. (nb, border))
                 (filter (\<lambda>nb. has_edge c (nb, border)) (g_neighbors G border))
      in mapM_res (get_branch_description_from_edge env G c) es)"

text \<open>
  \<open>sum(xs)\<close> adds the elements to 0 from left to right. Without a boundary node the
  radius is an integer of the table.
\<close>

definition get_radius :: "env \<Rightarrow> graph \<Rightarrow> crossroad \<Rightarrow> error + real" where
  "get_radius env G c =
     (let borders = filter (is_boundary_node env G (nodes c) (edges c)) (nodes c) in
      bind_res (getCenter c) (\<lambda>center.
        if length borders = 0 then
          foldM_res
            (\<lambda>radius nb.
               bind_res (table_get min_distance_boundary_polyline
                           (get_highway_classification (NodePair center nb)))
                 (\<lambda>v. Inr (if v > radius then v else radius)))
            0 (g_neighbors G center)
        else Inr (float_div env (foldl (float_add env) 0 (map (distance env G center) borders))
                    (real (length borders)))))"

definition get_open_paths :: "env \<Rightarrow> graph \<Rightarrow> crossroad \<Rightarrow> node \<Rightarrow> real \<Rightarrow> node list list" where
  "get_open_paths env G c point radius =
     map (\<lambda>nb. get_path_to_biffurcation env G point nb (Some radius))
       (filter (\<lambda>nb. \<not> has_edge c (nb, point)) (g_neighbors G point))"

text \<open>The branch of one open path: the edge of its last two nodes.\<close>

definition open_path_branch ::
  "env \<Rightarrow> graph \<Rightarrow> crossroad \<Rightarrow> node list \<Rightarrow> error + branch_description" where
  "open_path_branch env G c ob =
     bind_res (py_index ob (int (length ob) - 2)) (\<lambda>a.
     bind_res (py_index ob (int (length ob) - 1)) (\<lambda>b.
       get_branch_description_from_edge env G c (a, b)))"

text \<open>The body of the loop over the boundary nodes, on the list of branches built so far.\<close>

definition branches_of_border ::
  "env \<Rightarrow> graph \<Rightarrow> crossroad \<Rightarrow> node \<Rightarrow> real \<Rightarrow> node \<Rightarrow> error + branch_description list" where
  "branches_of_border env G c center radius b =
     (if b \<noteq> center then get_branches_description_from_node env G c b
      else mapM_res (open_path_branch env G c) (get_open_paths env G c center radius))"

definition build_branches_description :: "env \<Rightarrow> graph \<Rightarrow> crossroad \<Rightarrow> error + crossroad" where
  "build_branches_description env G c =
     bind_res (getCenter c) (\<lambda>center.
     bind_res (get_radius env G c) (\<lambda>radius.
       let borders = filter (is_boundary_node env G (nodes c) (edges c)) (nodes c) in
       bind_res
         (foldM_res
            (\<lambda>bs b. bind_res (branches_of_border env G c center radius b) (\<lambda>new. Inr (bs @ new)))
            [] borders)
         (\<lambda>bs. Inr (c\<lparr>branches := bs\<rparr>))))"

section \<open>Crossroad: acceptance of a candidate path (crossroad.py, lines 152-221)\<close>

text \<open>\<open>d[k]\<close> where the key may be Python's \<open>None\<close>, which is no key of the tables.\<close>

definition table_get_opt :: "(string \<times> 'v) list \<Rightarrow> string option \<Rightarrow> error + 'v" where
  "table_get_opt d k = (case k of None \<Rightarrow> Inl KeyError | Some k' \<Rightarrow> table_get d k')"

definition get_max_highway_classification_other ::
  "graph \<Rightarrow> crossroad \<Rightarrow> node list \<Rightarrow> error + string option" where
  "get_max_highway_classification_other G c path =
     (if length (nodes c) = 0 then Inr None
      else
        bind_res (table_get max_distance_boundary_polyline ''default'') (\<lambda>value0.
        bind_res (getCenter c) (\<lambda>center.
        bind_res
          (foldM_res
             (\<lambda>rv nb.
                bind_res (py_index path 1) (\<lambda>p1.
                  if nb \<noteq> p1 then
                    (let cl = get_highway_classification (NodePair center nb) in
                     bind_res (table_get max_distance_boundary_polyline cl) (\<lambda>v.
                       Inr (if v > snd rv then (cl, v) else rv)))
                  else Inr rv))
             (''default'', value0) (g_neighbors G center))
          (\<lambda>rv. Inr (Some (fst rv))))))"

text \<open>
  The result is a node, or the initial \<open>-1\<close> when the point has no neighbour; it is an
  integer so that both can be compared with a node.
\<close>

definition get_closest_possible_biffurcation :: "env \<Rightarrow> graph \<Rightarrow> node \<Rightarrow> error + int" where
  "get_closest_possible_biffurcation env G point =
     bind_res
       (foldM_res
          (\<lambda>rl nb.
             (let path = get_path_to_biffurcation env G point nb None;
                  l = path_length env G path
              in if snd rl < 0 \<or> l < snd rl
                 then bind_res (py_index path (int (length path) - 1)) (\<lambda>e. Inr (int e, l))
                 else Inr rl))
          (- 1, - 1) (g_neighbors G point))
       (\<lambda>rl. Inr (fst rl))"

fun is_inner_path_by_osmdata :: "graph \<Rightarrow> node list \<Rightarrow> error + bool" where
  "is_inner_path_by_osmdata G (p1 # p2 # ps) =
     (case g_edge G p1 p2 of
        None \<Rightarrow> Inl KeyError
      | Some e \<Rightarrow> if e ''junction'' = None then Inr False
                  else is_inner_path_by_osmdata G (p2 # ps))"
| "is_inner_path_by_osmdata G ps = Inr True"

text \<open>
  The result is \<open>Some True\<close>, \<open>Some False\<close> or \<open>None\<close>, Python's \<open>None\<close> of a
  function that ends without a \<open>return\<close>.
\<close>

definition is_correct_inner_path ::
  "env \<Rightarrow> graph \<Rightarrow> crossroad \<Rightarrow> node list \<Rightarrow> error + bool option" where
  "is_correct_inner_path env G c path =
     (if length path < 2 then Inr (Some False)
      else if hd path = last path then Inr (Some False)
      else
        bind_res (is_inner_path_by_osmdata G path) (\<lambda>junction.
          if junction then Inr (Some True)
          else
            (let first = hd path; lst = last path in
             if is_weakly_in_crossroad env G first \<and> is_weakly_boundary env G lst then
               (let d = path_length env G path;
                    r = (if length (g_neighbors G first) > 4 then 2 else 1) in
                bind_res (get_max_highway_classification_other G c path) (\<lambda>highway.
                bind_res (table_get_opt min_distance_boundary_polyline highway) (\<lambda>dmin.
                  if d < dmin * r then Inr (Some True)
                  else
                    bind_res (table_get_opt max_distance_boundary_polyline highway) (\<lambda>dmax.
                      if d < dmax * r then
                        bind_res (get_closest_possible_biffurcation env G lst) (\<lambda>b.
                          if b = int first then Inr (Some True) else Inr (Some False))
                      else Inr (Some False)))))
             else Inr None)))"

section \<open>Crossroad: candidate paths (crossroad.py, lines 224-281)\<close>

definition is_middle_path_node :: "env \<Rightarrow> graph \<Rightarrow> node \<Rightarrow> bool \<Rightarrow> bool" where
  "is_middle_path_node env G n strong =
     (if length (g_neighbors G n) \<noteq> 2 then False
      else if strong then \<not> (is_strong_boundary env G n \<or> is_strong_in_crossroad env G n)
      else \<not> (is_weakly_boundary env G n \<or> is_weakly_in_crossroad env G n))"

definition get_next_node_along_polyline :: "graph \<Rightarrow> node \<Rightarrow> node \<Rightarrow> node option" where
  "get_next_node_along_polyline G current pred = find (\<lambda>n. n \<noteq> pred) (g_neighbors G current)"

text \<open>
  One of the two \<open>while\<close> loops of \<open>get_possible_paths\<close>, on a path of at least two
  nodes: it either leaves the loop with the path walked, or meets a node with no
  neighbour to go on to. The first argument bounds the number of iterations.
\<close>

datatype walk = CannotFollow | Walked "node list"

fun follow_polyline :: "nat \<Rightarrow> env \<Rightarrow> graph \<Rightarrow> world \<Rightarrow> bool \<Rightarrow> node list \<Rightarrow> error + walk" where
  "follow_polyline 0 env G w strong path =
     (if is_middle_path_node env G (last path) strong then Inl OutOfFuel
      else Inr (Walked path))"
| "follow_polyline (Suc k) env G w strong path =
     (if is_middle_path_node env G (last path) strong then
        (case get_next_node_along_polyline G (last path) (last (butlast path)) of
           None \<Rightarrow> Inr CannotFollow
         | Some nxt \<Rightarrow>
             if \<not> unknown_region_node w nxt then Inr (Walked (path @ [nxt]))
             else follow_polyline k env G w strong (path @ [nxt]))
      else Inr (Walked path))"

definition print :: "world \<Rightarrow> string \<Rightarrow> world" where
  "print w line = w\<lparr>stdout := stdout w @ [line]\<rparr>"

definition get_possible_paths ::
  "nat \<Rightarrow> env \<Rightarrow> graph \<Rightarrow> world \<Rightarrow> node \<Rightarrow> node \<Rightarrow> error + node list list \<times> world" where
  "get_possible_paths fuel env G w n1 n2 =
     bind_res (follow_polyline fuel env G w False [n1, n2]) (\<lambda>r1.
       case r1 of
         CannotFollow \<Rightarrow> Inr ([], print w ''ERROR: cannot follow a path'')
       | Walked path \<Rightarrow>
           if \<not> is_middle_path_node env G (last path) True then Inr ([path], w)
           else
             bind_res (follow_polyline fuel env G w True path) (\<lambda>r2.
               case r2 of
                 CannotFollow \<Rightarrow> Inr ([path], print w ''ERROR: cannot follow a path'')
               | Walked path2 \<Rightarrow> Inr ([path, path2], w)))"

section \<open>Crossroad: growth and construction (crossroad.py, lines 12-41 and 103-146)\<close>

text \<open>The truth value that an \<open>if\<close> gives to the result of \<open>is_correct_inner_path\<close>.\<close>

fun truthy :: "bool option \<Rightarrow> bool" where
  "truthy None = False"
| "truthy (Some b) = b"

text \<open>
  The inner loop of \<open>propagate\<close>: the first path of the list that
  \<open>is_correct_inner_path\<close> accepts, where the loop commits it and breaks.
\<close>

fun first_correct_path ::
  "env \<Rightarrow> graph \<Rightarrow> crossroad \<Rightarrow> node list list \<Rightarrow> error + node list option" where
  "first_correct_path env G c [] = Inr None"
| "first_correct_path env G c (path # ps) =
     bind_res (is_correct_inner_path env G c path) (\<lambda>r.
       if truthy r then Inr (Some path) else first_correct_path env G c ps)"

text \<open>The body of the loop of \<open>propagate\<close> over the neighbours of the seed.\<close>

definition propagate_neighbor ::
  "nat \<Rightarrow> env \<Rightarrow> graph \<Rightarrow> node \<Rightarrow> crossroad \<times> world \<Rightarrow> node \<Rightarrow> error + crossroad \<times> world" where
  "propagate_neighbor fuel env G n cw nb =
     (if unknown_region_edge (snd cw) (n, nb) then
        bind_res (get_possible_paths fuel env G (snd cw) n nb) (\<lambda>pw.
        bind_res (first_correct_path env G (fst cw) (rev (fst pw))) (\<lambda>sel.
          case sel of
            None \<Rightarrow> Inr (fst cw, snd pw)
          | Some path \<Rightarrow> Inr (add_path (fst cw, snd pw) path)))
      else Inr cw)"

definition propagate ::
  "nat \<Rightarrow> env \<Rightarrow> graph \<Rightarrow> crossroad \<times> world \<Rightarrow> node \<Rightarrow> error + crossroad \<times> world" where
  "propagate fuel env G cw n =
     foldM_res (propagate_neighbor fuel env G n) (add_node cw n) (g_neighbors G n)"

text \<open>The constructor \<open>Crossroad(G, node)\<close>.\<close>

definition Crossroad_init ::
  "nat \<Rightarrow> env \<Rightarrow> graph \<Rightarrow> world \<Rightarrow> node \<Rightarrow> error + crossroad \<times> world" where
  "Crossroad_init fuel env G w n =
     bind_res (propagate fuel env G (Region_init w) n) (\<lambda>cw.
     bind_res (build_branches_description env G (fst cw)) (\<lambda>c. Inr (c, snd cw)))"

fun is_straight_crossing_loop :: "graph \<Rightarrow> node list \<Rightarrow> bool" where
  "is_straight_crossing_loop G [] = True"
| "is_straight_crossing_loop G (n # ns) =
     (if length (g_neighbors G n) > 2 then False else is_straight_crossing_loop G ns)"

definition is_straight_crossing :: "graph \<Rightarrow> crossroad \<Rightarrow> bool" where
  "is_straight_crossing G c = is_straight_crossing_loop G (nodes c)"

definition is_reliable_crossroad_node :: "env \<Rightarrow> graph \<Rightarrow> node \<Rightarrow> bool" where
  "is_reliable_crossroad_node env G n =
     (if is_weakly_in_crossroad env G n then True
      else list_ex (\<lambda>nb. is_weakly_in_crossroad_edge env G (nb, n)) (g_neighbors G n))"

text \<open>The body of the loop of \<open>build_crossroads\<close> over the nodes of the graph.\<close>

definition build_crossroads_node ::
  "nat \<Rightarrow> env \<Rightarrow> graph \<Rightarrow> crossroad list \<times> world \<Rightarrow> node \<Rightarrow> error + crossroad list \<times> world" where
  "build_crossroads_node fuel env G cw n =
     (if unknown_region_node (snd cw) n then
        if is_reliable_crossroad_node env G n then
          bind_res (Crossroad_init fuel env G (snd cw) n) (\<lambda>c.
            if is_straight_crossing G (fst c) then Inr (fst cw, snd (clear_region c))
            else Inr (fst cw @ [fst c], snd c))
        else Inr cw
      else Inr cw)"

definition build_crossroads ::
  "nat \<Rightarrow> env \<Rightarrow> graph \<Rightarrow> world \<Rightarrow> error + crossroad list \<times> world" where
  "build_crossroads fuel env G w = foldM_res (build_crossroads_node fuel env G) ([], w) (g_nodes G)"

section \<open>Crossroad: proximity clustering (crossroad.py, lines 284-337)\<close>

text \<open>A list comprehension with a condition that may raise.\<close>

fun filterM_res :: "('a \<Rightarrow> error + bool) \<Rightarrow> 'a list \<Rightarrow> error + 'a list" where
  "filterM_res p [] = Inr []"
| "filterM_res p (x # xs) =
     (case p x of
        Inl e \<Rightarrow> Inl e
      | Inr b \<Rightarrow>
          (case filterM_res p xs of
             Inl e \<Rightarrow> Inl e
           | Inr ys \<Rightarrow> Inr (if b then x # ys else ys)))"

text \<open>
  The radius is an integer of the table when the crossroad has no boundary node, and its
  product with 4 is exact; otherwise it is a float, and so is the product.
\<close>

definition get_crossroads_in_neighborhood ::
  "env \<Rightarrow> graph \<Rightarrow> crossroad \<Rightarrow> crossroad list \<Rightarrow> error + crossroad list" where
  "get_crossroads_in_neighborhood env G self crossroads =
     bind_res (getCenter self) (\<lambda>center.
     bind_res (get_radius env G self) (\<lambda>rad.
       (let radius =
              (if length (filter (is_boundary_node env G (nodes self) (edges self)) (nodes self)) = 0
               then rad * 4 else float_mul env rad 4) in
        filterM_res
          (\<lambda>c. if region_id c \<noteq> region_id self
                then bind_res (getCenter c) (\<lambda>cc. Inr (distance env G center cc < radius))
                else Inr False)
          crossroads)))"

definition in_same_cluster :: "env \<Rightarrow> graph \<Rightarrow> crossroad \<Rightarrow> crossroad \<Rightarrow> error + bool" where
  "in_same_cluster env G self crossroad =
     bind_res (getCenter self) (\<lambda>c1.
     bind_res (getCenter crossroad) (\<lambda>c2.
       (let a = bearing env G c1 c2 in
        Inr (list_ex (\<lambda>b1. list_ex (\<lambda>b2. is_similar env b1 b2 \<and> is_orthogonal env b1 a)
                              (branches crossroad))
               (branches self)))))"

text \<open>
  The variables of \<open>get_clusters\<close>: the cluster under construction, the clusters found
  so far, the ids visited, and the lines printed.
\<close>

record clustering =
  cluster :: "crossroad list"
  result :: "crossroad list list"
  visited :: "nat list"
  printed :: "string list"

text \<open>
  The body of the inner loop of \<open>get_clusters\<close> (lines 320-332), for the crossroad
  \<open>cr\<close> of the neighbourhood of \<open>crossroad\<close>.
\<close>

definition get_clusters_neighbor ::
  "env \<Rightarrow> graph \<Rightarrow> crossroad \<Rightarrow> clustering \<Rightarrow> crossroad \<Rightarrow> error + clustering" where
  "get_clusters_neighbor env G crossroad s cr =
     bind_res (in_same_cluster env G crossroad cr) (\<lambda>same.
       if same then
         if region_id cr \<notin> set (visited s) then
           Inr (s\<lparr>visited := visited s @ [region_id cr], cluster := cluster s @ [cr]\<rparr>)
         else
           (let other_cluster = filter (\<lambda>c. cr \<in> set c) (result s) in
            if length other_cluster \<noteq> 1 then
              Inr (s\<lparr>printed := printed s @ [''Error while merging two clusters'']\<rparr>)
            else
              Inr (s\<lparr>cluster := cluster s @ hd other_cluster,
                     result := filter (\<lambda>c. cr \<notin> set c) (result s)\<rparr>))
       else Inr s)"

text \<open>The body of the outer loop of \<open>get_clusters\<close>.\<close>

definition get_clusters_crossroad ::
  "env \<Rightarrow> graph \<Rightarrow> crossroad list \<Rightarrow> clustering \<Rightarrow> crossroad \<Rightarrow> error + clustering" where
  "get_clusters_crossroad env G crossroads s crossroad =
     (if region_id crossroad \<notin> set (visited s) then
        bind_res (get_crossroads_in_neighborhood env G crossroad crossroads) (\<lambda>cr_in_neigborhood.
        bind_res
          (foldM_res (get_clusters_neighbor env G crossroad)
             (s\<lparr>visited := visited s @ [region_id crossroad], cluster := [crossroad]\<rparr>)
             cr_in_neigborhood)
          (\<lambda>s'. Inr (if length (cluster s') > 1
                      then s'\<lparr>result := result s' @ [cluster s']\<rparr> else s')))
      else Inr s)"

text \<open>\<open>get_clusters\<close> returns the clusters; the model returns the printed lines too.\<close>

definition get_clusters ::
  "env \<Rightarrow> graph \<Rightarrow> crossroad list \<Rightarrow> error + crossroad list list \<times> string list" where
  "get_clusters env G crossroads =
     bind_res
       (foldM_res (get_clusters_crossroad env G crossroads)
          \<lparr>cluster = [], result = [], visited = [], printed = []\<rparr> crossroads)
       (\<lambda>s. Inr (result s, printed s))"

section \<open>CrossroadConnections (crossroad_connections.py)\<close>

text \<open>
  What \<open>CrossroadConnections\<close> reads of a region: the answers of \<open>is_crossroad()\<close>
  and \<open>is_link()\<close>, the member nodes, the id, and the results of
  \<open>max_branch_width()\<close> and \<open>get_path(fromNodes, toNodes)\<close>, a path with its length.
\<close>

record region =
  is_crossroad :: bool
  is_link :: bool
  r_nodes :: "node list"
  r_id :: nat
  max_branch_width :: real
  get_path :: "node list \<Rightarrow> node list \<Rightarrow> node list \<times> real"

text \<open>
  A dictionary is an association list in insertion order: \<open>dict_get\<close> is \<open>d[k]\<close>,
  \<open>AList.update\<close> is \<open>d[k] = v\<close> (a new key goes to the end), and the keys are
  iterated in the order of the list.
\<close>

definition dict_get :: "('k \<times> 'v) list \<Rightarrow> 'k \<Rightarrow> error + 'v" where
  "dict_get d k = (case map_of d k of None \<Rightarrow> Inl KeyError | Some v \<Rightarrow> Inr v)"

type_synonym evidence = "node list \<times> nat"

record crossroad_connections =
  regions :: "(nat \<times> region) list"
  connection_threshold :: real
  crossroads :: "nat list"
  links :: "nat list"
  regionsByNode :: "(node \<times> nat list) list"
  adjacencies :: "(nat \<times> (nat \<times> node list) list) list"
  connected_crossroads :: "(nat \<times> nat \<times> evidence list) list"

definition typology_crossroad :: nat where "typology_crossroad = 1"
definition typology_link :: nat where "typology_link = 2"
definition typology_unknown :: nat where "typology_unknown = 0"

definition get_typology :: "nat list \<Rightarrow> nat list \<Rightarrow> nat \<Rightarrow> nat" where
  "get_typology crs lks rid =
     (if rid \<in> set crs then typology_crossroad
      else if rid \<in> set lks then typology_link
      else typology_unknown)"

definition add_node_region :: "(node \<times> nat list) list \<Rightarrow> nat \<Rightarrow> node \<Rightarrow> (node \<times> nat list) list" where
  "add_node_region rbn rid nid =
     (case map_of rbn nid of
        None \<Rightarrow> AList.update nid ([] @ [rid]) rbn
      | Some rs \<Rightarrow> AList.update nid (rs @ [rid]) rbn)"

text \<open>The inner loop of \<open>add_adjacencies\<close>, on the dictionary \<open>adjacencies[r1]\<close>.\<close>

definition add_adjacency ::
  "nat list \<Rightarrow> nat list \<Rightarrow> nat \<Rightarrow> node \<Rightarrow> (nat \<times> node list) list \<Rightarrow> nat \<Rightarrow> (nat \<times> node list) list" where
  "add_adjacency crs lks r1 n adj r2 =
     (if r2 \<noteq> r1 \<and> get_typology crs lks r1 \<noteq> get_typology crs lks r2 then
        (case map_of adj r2 of
           None \<Rightarrow> AList.update r2 ([] @ [n]) adj
         | Some ns \<Rightarrow> AList.update r2 (ns @ [n]) adj)
      else adj)"

definition add_adjacencies ::
  "nat list \<Rightarrow> nat list \<Rightarrow> (nat \<times> (nat \<times> node list) list) list \<Rightarrow> nat \<Rightarrow> node \<Rightarrow> nat list
     \<Rightarrow> (nat \<times> (nat \<times> node list) list) list" where
  "add_adjacencies crs lks adjs r1 n rs =
     (let adj0 = (case map_of adjs r1 of None \<Rightarrow> [] | Some adj \<Rightarrow> adj) in
      AList.update r1 (fold (\<lambda>r2 adj. add_adjacency crs lks r1 n adj r2) rs adj0) adjs)"

definition get_path_in_link ::
  "(nat \<times> region) list \<Rightarrow> (node \<times> nat list) list \<Rightarrow> nat \<Rightarrow> nat \<Rightarrow> nat
     \<Rightarrow> error + node list \<times> real" where
  "get_path_in_link rgs rbn l cr1 cr2 =
     bind_res (dict_get rgs l) (\<lambda>rl.
     bind_res (filterM_res (\<lambda>n. bind_res (dict_get rbn n) (\<lambda>rs. Inr (cr1 \<in> set rs))) (r_nodes rl))
       (\<lambda>cr1n.
     bind_res (filterM_res (\<lambda>n. bind_res (dict_get rbn n) (\<lambda>rs. Inr (cr2 \<in> set rs))) (r_nodes rl))
       (\<lambda>cr2n. Inr (get_path rl cr1n cr2n))))"

text \<open>
  The body of the innermost loop of \<open>compute_initial_connections\<close>: the connections
  that the crossroad \<open>cr\<close>, its adjacent region \<open>l\<close> and the region \<open>cr2\<close> adjacent
  to \<open>l\<close> append to the list, none or one. The widths, the threshold and the length of
  the path are floats; \<open>max\<close> and \<open>\<le>\<close> are exact on them, their product is rounded.
  The first argument \<open>mul\<close> is the product of two floats, a parameter of the model of
  which nothing is assumed.
\<close>

definition initial_connection ::
  "(real \<Rightarrow> real \<Rightarrow> real) \<Rightarrow> (nat \<times> region) list \<Rightarrow> real \<Rightarrow> (node \<times> nat list) list
     \<Rightarrow> nat \<Rightarrow> nat \<Rightarrow> nat \<Rightarrow> error + (nat \<times> nat \<times> evidence) list" where
  "initial_connection mul rgs thr rbn cr l cr2 =
     bind_res (dict_get rgs cr) (\<lambda>rcr.
     bind_res (dict_get rgs cr2) (\<lambda>rcr2.
       if r_id rcr < r_id rcr2 then
         bind_res (get_path_in_link rgs rbn l cr cr2) (\<lambda>pd.
           if snd pd < mul (max (max_branch_width rcr) (max_branch_width rcr2)) thr
           then Inr [(cr, cr2, (fst pd, l))]
           else Inr [])
       else Inr []))"

text \<open>A loop that appends to one list what its body yields for each element.\<close>

definition concatM_res :: "('a \<Rightarrow> error + 'b list) \<Rightarrow> 'a list \<Rightarrow> error + 'b list" where
  "concatM_res f xs = bind_res (mapM_res f xs) (\<lambda>yss. Inr (concat yss))"

definition compute_initial_connections ::
  "(real \<Rightarrow> real \<Rightarrow> real) \<Rightarrow> (nat \<times> region) list \<Rightarrow> real \<Rightarrow> nat list \<Rightarrow> (node \<times> nat list) list
     \<Rightarrow> (nat \<times> (nat \<times> node list) list) list \<Rightarrow> error + (nat \<times> nat \<times> evidence) list" where
  "compute_initial_connections mul rgs thr crs rbn adjs =
     concatM_res
       (\<lambda>cr. bind_res (dict_get adjs cr) (\<lambda>adj_cr.
          concatM_res
            (\<lambda>l. bind_res (dict_get adjs l) (\<lambda>adj_l.
               concatM_res (initial_connection mul rgs thr rbn cr l) (map fst adj_l)))
            (map fst adj_cr)))
       crs"

text \<open>The merge of the instances of one pair (lines 50-62).\<close>

definition merge_connection ::
  "((nat \<times> nat) \<times> evidence list) list \<Rightarrow> nat \<times> nat \<times> evidence
     \<Rightarrow> ((nat \<times> nat) \<times> evidence list) list" where
  "merge_connection merged c =
     (let k = (fst c, fst (snd c)) in
      case map_of merged k of
        Some evs \<Rightarrow> AList.update k (evs @ [snd (snd c)]) merged
      | None \<Rightarrow> AList.update k [snd (snd c)] merged)"

definition compute_connected_crossroads ::
  "(real \<Rightarrow> real \<Rightarrow> real) \<Rightarrow> (nat \<times> region) list \<Rightarrow> real \<Rightarrow> nat list \<Rightarrow> (node \<times> nat list) list
     \<Rightarrow> (nat \<times> (nat \<times> node list) list) list \<Rightarrow> error + (nat \<times> nat \<times> evidence list) list" where
  "compute_connected_crossroads mul rgs thr crs rbn adjs =
     bind_res (compute_initial_connections mul rgs thr crs rbn adjs) (\<lambda>initial.
       (let merged = fold (\<lambda>c m. merge_connection m c) initial [] in
        Inr (map (\<lambda>kv. (fst (fst kv), snd (fst kv), snd kv)) merged)))"

text \<open>The loop that fills \<open>regionsByNode\<close> (lines 30-33).\<close>

definition build_regionsByNode :: "(nat \<times> region) list \<Rightarrow> (node \<times> nat list) list" where
  "build_regionsByNode rgs =
     fold (\<lambda>kv m. fold (\<lambda>n m'. add_node_region m' (fst kv) n) (r_nodes (snd kv)) m) rgs []"

text \<open>The loop that fills \<open>adjacencies\<close> (lines 36-42).\<close>

definition build_adjacencies ::
  "nat list \<Rightarrow> nat list \<Rightarrow> (node \<times> nat list) list \<Rightarrow> (nat \<times> (nat \<times> node list) list) list" where
  "build_adjacencies crs lks rbn =
     fold (\<lambda>nrs a. fold (\<lambda>r1 a'. add_adjacencies crs lks a' r1 (fst nrs) (snd nrs)) (snd nrs) a)
       rbn []"

text \<open>
  The constructor \<open>CrossroadConnections(regions, connection_threshold)\<close>, with the
  product of floats as its first argument.
\<close>

definition init_structure ::
  "(real \<Rightarrow> real \<Rightarrow> real) \<Rightarrow> (nat \<times> region) list \<Rightarrow> real \<Rightarrow> error + crossroad_connections" where
  "init_structure mul rgs thr =
     (let crs = map fst (filter (\<lambda>kv. is_crossroad (snd kv)) rgs);
          lks = map fst (filter (\<lambda>kv. \<not> is_crossroad (snd kv) \<and> is_link (snd kv)) rgs);
          rbn = build_regionsByNode rgs;
          adjs = build_adjacencies crs lks rbn
      in bind_res (compute_connected_crossroads mul rgs thr crs rbn adjs) (\<lambda>conn.
           Inr \<lparr>regions = rgs, connection_threshold = thr, crossroads = crs, links = lks,
                regionsByNode = rbn, adjacencies = adjs, connected_crossroads = conn\<rparr>))"

definition get_pairs :: "crossroad_connections \<Rightarrow> (nat \<times> nat \<times> evidence list) list" where
  "get_pairs cc = filter (\<lambda>connected. length (snd (snd connected)) > 1) (connected_crossroads cc)"

section \<open>CrossroadConnections: cycles (crossroad_connections.py, lines 115-176)\<close>













section \<open>Reading the connections\<close>




section \<open>Reading the adjacency structure\<close>

text \<open>The regions adjacent to a region: the keys of \<open>adjacencies[r]\<close>, none when absent.\<close>

definition adjacent_regions :: "crossroad_connections \<Rightarrow> nat \<Rightarrow> nat list" where
  "adjacent_regions cc r =
     (case map_of (adjacencies cc) r of None \<Rightarrow> [] | Some adj \<Rightarrow> map fst adj)"

text \<open>
  The regions that link \<open>a\<close> to \<open>b\<close>: those adjacent to \<open>a\<close> to which \<open>b\<close> is
  adjacent, in the order in which \<open>compute_initial_connections\<close> meets them.
\<close>

definition links_between :: "crossroad_connections \<Rightarrow> nat \<Rightarrow> nat \<Rightarrow> nat list" where
  "links_between cc a b =
     filter (\<lambda>l. b \<in> set (adjacent_regions cc l)) (adjacent_regions cc a)"

text \<open>Two regions of the dictionary have a member node in common.\<close>

definition shares_node :: "(nat \<times> region) list \<Rightarrow> nat \<Rightarrow> nat \<Rightarrow> bool" where
  "shares_node rgs x y =
     (case map_of rgs x of
        None \<Rightarrow> False
      | Some rx \<Rightarrow>
          (case map_of rgs y of
             None \<Rightarrow> False
           | Some ry \<Rightarrow> list_ex (\<lambda>n. n \<in> set (r_nodes ry)) (r_nodes rx)))"

text \<open>
  Two regions touch: they are different regions, of different typology (a crossroad and a
  link, or one of them neither), with a member node in common.
\<close>

definition touches :: "crossroad_connections \<Rightarrow> nat \<Rightarrow> nat \<Rightarrow> bool" where
  "touches cc x y =
     (y \<noteq> x \<and>
      get_typology (crossroads cc) (links cc) x \<noteq> get_typology (crossroads cc) (links cc) y \<and>
      shares_node (regions cc) x y)"

section \<open>Predicates and reference definitions used to state the properties\<close>

text \<open>The pair of nodes is joined by an edge of the graph.\<close>

definition edge_exists :: "graph \<Rightarrow> node \<times> node \<Rightarrow> bool" where
  "edge_exists G e = (g_edge G (fst e) (snd e) \<noteq> None)"

text \<open>The pair of nodes is joined by an edge that carries the \<open>junction\<close> marker.\<close>

definition carries_junction :: "graph \<Rightarrow> node \<times> node \<Rightarrow> bool" where
  "carries_junction G e =
     (case g_edge G (fst e) (snd e) of None \<Rightarrow> False | Some a \<Rightarrow> a ''junction'' \<noteq> None)"

text \<open>The road-name attribute of the edge between two nodes, when present.\<close>

definition edge_name :: "graph \<Rightarrow> node \<Rightarrow> node \<Rightarrow> string option" where
  "edge_name G a b = (case g_edge G a b of None \<Rightarrow> None | Some e \<Rightarrow> e ''name'')"

text \<open>
  One branch for each neighbour \<open>nb\<close> of the node \<open>b\<close>, in the order of the
  neighbours, such that the edge between \<open>nb\<close> and \<open>b\<close> is a member edge of the
  region: its angle is the bearing from the centre to \<open>b\<close>, its name the road name of
  that edge.
\<close>

definition region_edge_branches ::
  "env \<Rightarrow> graph \<Rightarrow> crossroad \<Rightarrow> node \<Rightarrow> node \<Rightarrow> branch_description list" where
  "region_edge_branches env G c center b =
     map (\<lambda>nb. BranchDescription (bearing env G center b) (edge_name G nb b))
       (filter (\<lambda>nb. has_edge c (nb, b)) (g_neighbors G b))"

text \<open>
  The branches of a boundary node, written after the specification's words: one branch
  per edge incident to the node that is not part of the region, with the bearing from
  the centre to the far endpoint of that edge and the name of that edge.
\<close>

definition spec_branches_from_node ::
  "env \<Rightarrow> graph \<Rightarrow> crossroad \<Rightarrow> node \<Rightarrow> error + branch_description list" where
  "spec_branches_from_node env G c b =
     mapM_res
       (\<lambda>far. case g_edge G b far of
                None \<Rightarrow> Inl KeyError
              | Some e \<Rightarrow>
                  bind_res (getCenter c) (\<lambda>center.
                    Inr (BranchDescription (bearing env G center far) (e ''name''))))
       (filter (\<lambda>far. \<not> has_edge c (b, far)) (g_neighbors G b))"





section \<open>A small network: a junction with three approach roads\<close>

text \<open>
  Node 1 is joined to the nodes 2, 3 and 4; the edge to 4 carries the \<open>junction\<close>
  marker. Node 2 is rated inside a crossroad, node 1 on a boundary, and every edge is
  rated inside a crossroad. All distances are 5 metres per edge, and the bearing towards
  node \<open>b\<close> is \<open>90 * b\<close> degrees. A node is a boundary node of a region when one of
  its edges is not in the region. The numbers of this network are small integers, on
  which the arithmetic of floats is exact.
\<close>

definition ex_attrs :: "node \<Rightarrow> node \<Rightarrow> attrs option" where
  "ex_attrs a b =
     (if (a, b) = (1, 2) \<or> (a, b) = (2, 1)
        then Some [''highway'' \<mapsto> ''residential'', ''name'' \<mapsto> ''Main Street'']
      else if (a, b) = (1, 3) \<or> (a, b) = (3, 1)
        then Some [''highway'' \<mapsto> ''primary_link'', ''name'' \<mapsto> ''North Road'']
      else if (a, b) = (1, 4) \<or> (a, b) = (4, 1)
        then Some [''highway'' \<mapsto> ''service'', ''junction'' \<mapsto> ''roundabout'']
      else None)"

definition ex_graph :: graph where
  "ex_graph =
     \<lparr>g_nodes = [1, 2, 3, 4],
      g_neighbors = (\<lambda>n. if n = 1 then [2, 3, 4] else if n = 2 \<or> n = 3 \<or> n = 4 then [1] else []),
      g_edge = ex_attrs\<rparr>"

definition ex_env :: env where
  "ex_env =
     \<lparr>is_weakly_boundary = (\<lambda>G n. n = 1),
      is_strong_boundary = (\<lambda>G n. n = 1),
      is_weakly_in_crossroad = (\<lambda>G n. n = 2),
      is_strong_in_crossroad = (\<lambda>G n. n = 2),
      is_weakly_in_crossroad_edge = (\<lambda>G e. True),
      distance = (\<lambda>G a b. 5),
      bearing = (\<lambda>G a b. 90 * real b),
      path_length = (\<lambda>G p. 5 * (real (length p) - 1)),
      get_path_to_biffurcation = (\<lambda>G p nb r. [p, nb]),
      is_boundary_node =
        (\<lambda>G ns es n. list_ex (\<lambda>nb. (nb, n) \<notin> set es \<and> (n, nb) \<notin> set es) (g_neighbors G n)),
      is_similar = (\<lambda>a b. name a = name b),
      is_orthogonal = (\<lambda>b a. False),
      float_add = (\<lambda>x y. x + y),
      float_div = (\<lambda>x y. x / y),
      float_mul = (\<lambda>x y. x * y)\<rparr>"

definition ex_world :: world where
  "ex_world = \<lparr>node_region = Map.empty, edge_region = Map.empty, next_id = 0, stdout = []\<rparr>"

text \<open>The two crossroads that \<open>build_crossroads\<close> keeps on this network.\<close>

definition ex_crossroad0 :: crossroad where
  "ex_crossroad0 =
     \<lparr>region_id = 0, nodes = [1, 4], edges = [(1, 4)],
      branches = [BranchDescription 180 (Some ''Main Street''),
                  BranchDescription 270 (Some ''North Road'')]\<rparr>"

definition ex_crossroad1 :: crossroad where
  "ex_crossroad1 =
     \<lparr>region_id = 1, nodes = [2, 1], edges = [(2, 1)],
      branches = [BranchDescription 90 (Some ''Main Street'')]\<rparr>"

section \<open>Clustering: an invariant and a scene\<close>

text \<open>
  No crossroad occurs twice in the current cluster and the clusters found so far, and
  all of them have been visited.
\<close>

definition cluster_invariant :: "clustering \<Rightarrow> bool" where
  "cluster_invariant s =
     (distinct (cluster s @ concat (result s)) \<and>
      (\<forall>c\<in>set (cluster s @ concat (result s)). region_id c \<in> set (visited s)))"

text \<open>
  The small network again, with a branch taken as orthogonal to a bearing of 90 degrees
  only: the second crossroad matches the first, not the first the second.
\<close>

definition ex_env_clusters :: env where
  "ex_env_clusters = ex_env\<lparr>is_orthogonal := (\<lambda>b a. a = 90)\<rparr>"

text \<open>
  The state of \<open>get_clusters\<close> on the two crossroads of the small network when the
  second one meets the first, already visited and in no cluster.
\<close>

definition ex_no_claim :: clustering where
  "ex_no_claim = \<lparr>cluster = [ex_crossroad1], result = [], visited = [0, 1], printed = []\<rparr>"

section \<open>Scenes for the connection graph\<close>

text \<open>
  The widths, thresholds and lengths of the scenes are small integers: their products are
  floats, so the product of floats is the product of the reals there.
\<close>

definition ex_mul :: "real \<Rightarrow> real \<Rightarrow> real" where
  "ex_mul x y = x * y"

text \<open>
  A crossroad region answers \<open>is_crossroad()\<close> with true and has a branch width; a link
  region answers \<open>is_link()\<close> with true, and \<open>get_path\<close> returns its nodes with the
  given length.
\<close>

definition ex_crossroad_region :: "nat \<Rightarrow> node list \<Rightarrow> real \<Rightarrow> region" where
  "ex_crossroad_region i ns width =
     \<lparr>is_crossroad = True, is_link = False, r_nodes = ns, r_id = i, max_branch_width = width,
      get_path = (\<lambda>f t. ([], 0))\<rparr>"

definition ex_link_region :: "nat \<Rightarrow> node list \<Rightarrow> real \<Rightarrow> region" where
  "ex_link_region i ns len =
     \<lparr>is_crossroad = False, is_link = True, r_nodes = ns, r_id = i, max_branch_width = 0,
      get_path = (\<lambda>f t. (ns, len))\<rparr>"

text \<open>
  Two crossroads, of branch widths 10 and 8, joined by one link of the given length
  through the shared nodes 2 and 3.
\<close>

definition ex_two_crossroads :: "real \<Rightarrow> (nat \<times> region) list" where
  "ex_two_crossroads len =
     [(0, ex_crossroad_region 0 [1, 2] 10), (1, ex_crossroad_region 1 [3, 4] 8),
      (2, ex_link_region 2 [2, 5, 3] len)]"




section \<open>Properties of the highway classification\<close>

lemma in_table_max_iff:
  "in_table k max_distance_boundary_polyline \<longleftrightarrow>
     k \<in> {''motorway'', ''trunk'', ''primary'', ''secondary'', ''tertiary'',
          ''unclassified'', ''residential'', ''living_street'', ''service'', ''default''}"
  by (simp add: in_table_def max_distance_boundary_polyline_def)

lemma link_suffix_not_in_table:
  "\<not> in_table (k @ ''_link'') max_distance_boundary_polyline"
proof -
  have "drop (length (k @ ''_link'') - 5) (k @ ''_link'') = ''_link''" by simp
  moreover have "\<forall>t. in_table t max_distance_boundary_polyline \<longrightarrow>
      drop (length t - 5) t \<noteq> ''_link''"
    by (auto simp: in_table_max_iff)
  ultimately show ?thesis by blast
qed

text \<open>
  What the code computes on an attribute dictionary: the \<open>_link\<close> branch is dead, since
  no key of the table ends in \<open>_link\<close>; a tag is kept when it is a key of the table and
  replaced by \<open>default\<close> otherwise.
\<close>

lemma get_highway_classification_EdgeData:
  "get_highway_classification (EdgeData edge) =
     (case edge ''highway'' of
        None \<Rightarrow> ''default''
      | Some tag \<Rightarrow> if in_table tag max_distance_boundary_polyline then tag else ''default'')"
  by (simp add: link_suffix_not_in_table Let_def split: option.splits)

text \<open>
  C3. The code does not agree with the reference normalization on \<open>_link\<close> variants:
  the edge tagged \<open>primary_link\<close> is classified \<open>default\<close> by the code, where the
  reference normalization gives the base class \<open>primary\<close>.
\<close>

theorem C3_primary_link_diverges:
  "get_highway_classification (EdgeData [''highway'' \<mapsto> ''primary_link'']) = ''default'' \<and>
   spec_highway_classification [''highway'' \<mapsto> ''primary_link''] = ''primary''"
  by (simp add: spec_highway_classification_def strip_link_def in_table_max_iff
      link_suffix_not_in_table Let_def)

section \<open>Auxiliary facts about results and loops\<close>

lemma bind_res_Inr_iff: "bind_res m f = Inr y \<longleftrightarrow> (\<exists>x. m = Inr x \<and> f x = Inr y)"
  by (cases m) (simp_all add: bind_res_def)

lemma foldM_res_invariant:
  assumes "foldM_res f s xs = Inr s'" and "P s"
    and "\<And>a x b. P a \<Longrightarrow> x \<in> set xs \<Longrightarrow> f a x = Inr b \<Longrightarrow> P b"
  shows "P s'"
  using assms
proof (induction xs arbitrary: s)
  case Nil
  then show ?case by simp
next
  case (Cons x xs)
  from Cons.prems(1) obtain s1 where s1: "f s x = Inr s1" and rest: "foldM_res f s1 xs = Inr s'"
    by (auto split: sum.splits)
  have "P s1" using Cons.prems(2,3) s1 by (metis list.set_intros(1))
  then show ?case using Cons.IH[OF rest] Cons.prems(3) by (metis list.set_intros(2))
qed

lemma mapM_res_eq_map:
  assumes "mapM_res f xs = Inr ys" and "\<And>x y. x \<in> set xs \<Longrightarrow> f x = Inr y \<Longrightarrow> y = g x"
  shows "ys = map g xs"
  using assms
proof (induction xs arbitrary: ys)
  case Nil
  then show ?case by simp
next
  case (Cons x xs)
  from Cons.prems(1) obtain y ys' where
    y: "f x = Inr y" and r: "mapM_res f xs = Inr ys'" and e: "ys = y # ys'"
    by (auto split: sum.splits)
  have "y = g x" using Cons.prems(2) y by (metis list.set_intros(1))
  moreover have "ys' = map g xs" using Cons.IH[OF r] Cons.prems(2) by (metis list.set_intros(2))
  ultimately show ?case using e by simp
qed

lemma foldM_res_append:
  assumes "foldM_res (\<lambda>bs b. bind_res (g b) (\<lambda>new. Inr (bs @ new))) acc xs = Inr r"
  shows "\<exists>yss. mapM_res g xs = Inr yss \<and> r = acc @ concat yss"
  using assms
proof (induction xs arbitrary: acc)
  case Nil
  then show ?case by simp
next
  case (Cons x xs)
  from Cons.prems obtain new where n: "g x = Inr new"
    and r: "foldM_res (\<lambda>bs b. bind_res (g b) (\<lambda>new. Inr (bs @ new))) (acc @ new) xs = Inr r"
    by (auto simp: bind_res_Inr_iff split: sum.splits)
  from Cons.IH[OF r] obtain yss where "mapM_res g xs = Inr yss" "r = (acc @ new) @ concat yss"
    by blast
  then show ?case using n by simp
qed

lemma mapM_res_projr:
  "mapM_res f xs = Inr yss \<Longrightarrow>
     (\<forall>x\<in>set xs. f x = Inr (projr (f x))) \<and> yss = map (\<lambda>x. projr (f x)) xs"
  by (induction xs arbitrary: yss) (auto split: sum.splits)

section \<open>Acceptance of candidate paths\<close>

lemma is_inner_path_by_osmdata_True:
  "list_all (carries_junction G) (zip path (tl path)) \<Longrightarrow>
   is_inner_path_by_osmdata G path = Inr True"
  by (induction G path rule: is_inner_path_by_osmdata.induct)
     (auto simp: carries_junction_def split: option.splits)

lemma is_inner_path_by_osmdata_False:
  "list_all (edge_exists G) (zip path (tl path)) \<Longrightarrow>
   \<not> list_all (carries_junction G) (zip path (tl path)) \<Longrightarrow>
   is_inner_path_by_osmdata G path = Inr False"
  by (induction G path rule: is_inner_path_by_osmdata.induct)
     (auto simp: carries_junction_def edge_exists_def split: option.splits)

text \<open>
  C5. A candidate path of at least two nodes that does not come back to its first node,
  and all of whose edges carry the \<open>junction\<close> marker, is accepted by
  \<open>is_correct_inner_path\<close>: the result is \<open>True\<close> whatever the reliability scores, the
  length of the path and the distance thresholds are.
\<close>

theorem C5_junction_path_accepted:
  assumes "2 \<le> length path" and "hd path \<noteq> last path"
    and "list_all (carries_junction G) (zip path (tl path))"
  shows "is_correct_inner_path env G c path = Inr (Some True)"
  using assms by (simp add: is_correct_inner_path_def is_inner_path_by_osmdata_True bind_res_def)

theorem C5_junction_path_accepted_witness:
  "2 \<le> length [1::node, 4] \<and> hd [1::node, 4] \<noteq> last [1, 4] \<and>
   list_all (carries_junction ex_graph) (zip [1, 4] (tl [1, 4])) \<and>
   is_correct_inner_path ex_env ex_graph (fst (Region_init ex_world)) [1, 4] = Inr (Some True)"
  using C5_junction_path_accepted [of "[1, 4]" ex_graph ex_env "fst (Region_init ex_world)"]
  by (simp add: carries_junction_def ex_graph_def ex_attrs_def)

text \<open>
  C10. For a path of at least two nodes that does not come back to its first node, whose
  edges are edges of the graph and do not all carry the \<open>junction\<close> marker, and whose
  first node is not weakly in a crossroad or whose last node is not weakly a boundary,
  \<open>is_correct_inner_path\<close> returns \<open>None\<close>, not \<open>False\<close>. The loop of \<open>propagate\<close>
  takes this result as a rejection: it goes on to the next candidate, and when this path is
  the only candidate the region is left as it was.
\<close>

theorem C10_rejected_with_None:
  assumes "2 \<le> length path" and "hd path \<noteq> last path"
    and "list_all (edge_exists G) (zip path (tl path))"
    and "\<not> list_all (carries_junction G) (zip path (tl path))"
    and "\<not> is_weakly_in_crossroad env G (hd path) \<or> \<not> is_weakly_boundary env G (last path)"
  shows "is_correct_inner_path env G c path = Inr None \<and>
         first_correct_path env G c (path # ps) = first_correct_path env G c ps \<and>
         (unknown_region_edge w (n, nb) \<longrightarrow>
          get_possible_paths fuel env G w n nb = Inr ([path], w') \<longrightarrow>
            propagate_neighbor fuel env G n (c, w) nb = Inr (c, w'))"
proof -
  have a: "is_correct_inner_path env G c path = Inr None"
    using assms
    by (auto simp add: is_correct_inner_path_def is_inner_path_by_osmdata_False bind_res_def Let_def)
  show ?thesis using a by (simp add: bind_res_def propagate_neighbor_def)
qed

theorem C10_rejected_with_None_witness:
  "is_correct_inner_path ex_env ex_graph ex_crossroad0 [1, 2] = Inr None \<and>
   first_correct_path ex_env ex_graph ex_crossroad0 [[1, 2]] = Inr None \<and>
   get_possible_paths 10 ex_env ex_graph ex_world 1 2 = Inr ([[1, 2]], ex_world) \<and>
   propagate_neighbor 10 ex_env ex_graph 1 (ex_crossroad0, ex_world) 2 = Inr (ex_crossroad0, ex_world)"
proof -
  have p: "get_possible_paths 10 ex_env ex_graph ex_world 1 2 = Inr ([[1, 2]], ex_world)"
    by (simp add: get_possible_paths_def eval_nat_numeral bind_res_def is_middle_path_node_def
        ex_graph_def ex_env_def)
  have u: "unknown_region_edge ex_world (1, 2)"
    by (simp add: unknown_region_edge_def ex_world_def)
  have h: "2 \<le> length [1::node, 2]" "hd [1::node, 2] \<noteq> last [1, 2]"
    "list_all (edge_exists ex_graph) (zip [1, 2] (tl [1, 2]))"
    "\<not> list_all (carries_junction ex_graph) (zip [1, 2] (tl [1, 2]))"
    "\<not> is_weakly_in_crossroad ex_env ex_graph (hd [1, 2]) \<or>
     \<not> is_weakly_boundary ex_env ex_graph (last [1, 2])"
    by (simp_all add: edge_exists_def carries_junction_def ex_graph_def ex_attrs_def ex_env_def)
  from C10_rejected_with_None [OF h, of ex_crossroad0 "[]" ex_world 1 2 10 ex_world] p u
  show ?thesis by (simp add: bind_res_def)
qed

section \<open>The crossroad builder\<close>

lemma is_straight_crossing_loop_iff:
  "is_straight_crossing_loop G ns \<longleftrightarrow> (\<forall>n\<in>set ns. length (g_neighbors G n) \<le> 2)"
  by (induction ns) auto

lemma build_crossroads_node_keeps:
  assumes "build_crossroads_node fuel env G cw n = Inr cw'"
    and "\<forall>c\<in>set (fst cw). \<not> is_straight_crossing G c"
  shows "\<forall>c\<in>set (fst cw'). \<not> is_straight_crossing G c"
  using assms
  by (auto simp: build_crossroads_node_def bind_res_Inr_iff split: if_splits)

lemma ex_graph_run:
  "map_sum id fst (build_crossroads 10 ex_env ex_graph ex_world) =
     Inr [ex_crossroad0, ex_crossroad1]"
  by code_simp

text \<open>
  C6. \<open>is_straight_crossing\<close> holds exactly when no member node has more than two
  neighbours; no crossroad returned by \<open>build_crossroads\<close> satisfies it; and a grown
  region that satisfies it is cleared and not appended to the collection.
\<close>

theorem C6_no_straight_crossing_kept:
  "(is_straight_crossing G c \<longleftrightarrow> (\<forall>n\<in>set (nodes c). length (g_neighbors G n) \<le> 2)) \<and>
   (build_crossroads fuel env G w = Inr (cs, w') \<longrightarrow> (\<forall>k\<in>set cs. \<not> is_straight_crossing G k)) \<and>
   (unknown_region_node w n \<longrightarrow> is_reliable_crossroad_node env G n \<longrightarrow>
      Crossroad_init fuel env G w n = Inr (c, wc) \<longrightarrow> is_straight_crossing G c \<longrightarrow>
      build_crossroads_node fuel env G (ks, w) n = Inr (ks, snd (clear_region (c, wc))))"
proof (intro conjI impI)
  show "is_straight_crossing G c \<longleftrightarrow> (\<forall>n\<in>set (nodes c). length (g_neighbors G n) \<le> 2)"
    by (simp add: is_straight_crossing_def is_straight_crossing_loop_iff)
next
  assume run: "build_crossroads fuel env G w = Inr (cs, w')"
  have "\<forall>k\<in>set (fst (cs, w')). \<not> is_straight_crossing G k"
    using run unfolding build_crossroads_def
    by (rule foldM_res_invariant) (simp, rule build_crossroads_node_keeps)
  then show "\<forall>k\<in>set cs. \<not> is_straight_crossing G k" by simp
next
  assume "unknown_region_node w n" "is_reliable_crossroad_node env G n"
    "Crossroad_init fuel env G w n = Inr (c, wc)" "is_straight_crossing G c"
  then show "build_crossroads_node fuel env G (ks, w) n = Inr (ks, snd (clear_region (c, wc)))"
    by (simp add: build_crossroads_node_def bind_res_def)
qed

theorem C6_no_straight_crossing_kept_witness:
  "(\<exists>cs w'. build_crossroads 10 ex_env ex_graph ex_world = Inr (cs, w') \<and>
      cs = [ex_crossroad0, ex_crossroad1] \<and>
      list_all (\<lambda>k. \<not> is_straight_crossing ex_graph k) cs) \<and>
   (\<exists>c w1. Crossroad_init 10 ex_env ex_graph ex_world 3 = Inr (c, w1) \<and> nodes c = [3] \<and>
      is_straight_crossing ex_graph c \<and>
      build_crossroads_node 10 ex_env ex_graph ([], ex_world) 3 =
        Inr ([], snd (clear_region (c, w1))))"
proof -
  obtain cs w' where run: "build_crossroads 10 ex_env ex_graph ex_world = Inr (cs, w')"
    and cs: "cs = [ex_crossroad0, ex_crossroad1]"
    using ex_graph_run by (cases "build_crossroads 10 ex_env ex_graph ex_world") auto
  have "\<forall>k\<in>set cs. \<not> is_straight_crossing ex_graph k"
    using C6_no_straight_crossing_kept [where G = ex_graph and fuel = 10 and env = ex_env
        and w = ex_world and cs = cs and w' = w'] run by blast
  then have a: "list_all (\<lambda>k. \<not> is_straight_crossing ex_graph k) cs"
    by (simp add: list_all_iff)
  have "map_sum id (\<lambda>r. (nodes (fst r), is_straight_crossing ex_graph (fst r)))
          (Crossroad_init 10 ex_env ex_graph ex_world 3) = Inr ([3], True)"
    by code_simp
  then obtain c w1 where ci: "Crossroad_init 10 ex_env ex_graph ex_world 3 = Inr (c, w1)"
    and n: "nodes c = [3]" and st: "is_straight_crossing ex_graph c"
    by (cases "Crossroad_init 10 ex_env ex_graph ex_world 3") auto
  have u: "unknown_region_node ex_world 3"
    by (simp add: unknown_region_node_def ex_world_def)
  have r: "is_reliable_crossroad_node ex_env ex_graph 3"
    by (simp add: is_reliable_crossroad_node_def ex_env_def ex_graph_def)
  have "build_crossroads_node 10 ex_env ex_graph ([], ex_world) 3 =
        Inr ([], snd (clear_region (c, w1)))"
    using C6_no_straight_crossing_kept [where G = ex_graph and fuel = 10 and env = ex_env
        and w = ex_world and c = c and wc = w1 and n = 3 and ks = "[]"] u r ci st by blast
  then show ?thesis using run cs a ci n st by blast
qed













section \<open>The claims of the kept crossroads\<close>

















section \<open>The branches of a crossroad\<close>

text \<open>
  The second crossroad of the small network has the centre 2 and the boundary node 1,
  whose edge to 2 is in the region and whose edges to 3 and 4 are not. The code gives it
  one branch, for the edge in the region, with the bearing of node 1; the reading of the
  specification gives two branches, for the edges to 3 and 4.
\<close>

theorem C2_counterexample:
  "map_sum id (map branches \<circ> fst) (build_crossroads 10 ex_env ex_graph ex_world) =
     Inr [[BranchDescription 180 (Some ''Main Street''), BranchDescription 270 (Some ''North Road'')],
          [BranchDescription 90 (Some ''Main Street'')]] \<and>
   get_branches_description_from_node ex_env ex_graph ex_crossroad1 1 =
     Inr [BranchDescription 90 (Some ''Main Street'')] \<and>
   spec_branches_from_node ex_env ex_graph ex_crossroad1 1 =
     Inr [BranchDescription 270 (Some ''North Road''), BranchDescription 360 None]"
  by code_simp

lemma get_branches_description_from_node_eq:
  assumes "get_branches_description_from_node env G c b = Inr bs" and "getCenter c = Inr center"
  shows "bs = map (\<lambda>nb. BranchDescription (bearing env G center b) (edge_name G nb b))
               (filter (\<lambda>nb. has_edge c (nb, b)) (g_neighbors G b))"
proof -
  let ?es = "map (\<lambda>nb. (nb, b)) (filter (\<lambda>nb. has_edge c (nb, b)) (g_neighbors G b))"
  have m: "mapM_res (get_branch_description_from_edge env G c) ?es = Inr bs"
    using assms(1) by (simp add: get_branches_description_from_node_def)
  have "bs = map (\<lambda>e. BranchDescription (bearing env G center b) (edge_name G (fst e) b)) ?es"
  proof (rule mapM_res_eq_map[OF m])
    fix e y assume "e \<in> set ?es" and y: "get_branch_description_from_edge env G c e = Inr y"
    then have "snd e = b" by auto
    then show "y = BranchDescription (bearing env G center b) (edge_name G (fst e) b)"
      using y assms(2)
      by (auto simp: get_branch_description_from_edge_def edge_name_def bind_res_def split: option.splits)
  qed
  then show ?thesis by (simp add: comp_def)
qed

lemma get_branches_description_from_node_block:
  assumes "get_branches_description_from_node env G c b = Inr bs" and "getCenter c = Inr center"
  shows "bs = region_edge_branches env G c center b"
  using get_branches_description_from_node_eq[OF assms] by (simp add: region_edge_branches_def)

text \<open>
  C2 (amended). The list of branches that \<open>build_branches_description\<close> gives a
  crossroad is exactly the concatenation, in the order of the boundary nodes, of one block
  per boundary node. The block of a boundary node \<open>b\<close> other than the centre is what
  \<open>get_branches_description_from_node\<close> returns for \<open>b\<close>: exactly one branch per
  neighbour \<open>nb\<close> of \<open>b\<close> such that the edge between \<open>nb\<close> and \<open>b\<close> is part
  of the region, in the order of the neighbours; its angle is the bearing from the centre
  to \<open>b\<close> itself, and its name is the road-name attribute of that edge when present.
  When the centre is itself a boundary node, its block is the list of the branches of its
  open paths.
\<close>

theorem C2_branches_of_boundary_node:
  assumes "build_branches_description env G c = Inr c'" and "getCenter c = Inr center"
  shows "\<exists>opens.
           branches c' =
             concat (map (\<lambda>b. if b \<noteq> center then region_edge_branches env G c center b else opens)
                       (filter (is_boundary_node env G (nodes c) (edges c)) (nodes c))) \<and>
           (\<forall>b\<in>set (filter (is_boundary_node env G (nodes c) (edges c)) (nodes c)).
              if b \<noteq> center
              then get_branches_description_from_node env G c b =
                     Inr (region_edge_branches env G c center b)
              else \<exists>radius. get_radius env G c = Inr radius \<and>
                     mapM_res (open_path_branch env G c) (get_open_paths env G c center radius) =
                       Inr opens)"
proof -
  let ?borders = "filter (is_boundary_node env G (nodes c) (edges c)) (nodes c)"
  from assms obtain radius bs where rad: "get_radius env G c = Inr radius" and
    f: "foldM_res (\<lambda>bs b. bind_res (branches_of_border env G c center radius b) (\<lambda>new. Inr (bs @ new)))
          [] ?borders = Inr bs" and c': "c' = c\<lparr>branches := bs\<rparr>"
    by (auto simp: build_branches_description_def bind_res_Inr_iff Let_def)
  from foldM_res_append[OF f] obtain yss where
    m: "mapM_res (branches_of_border env G c center radius) ?borders = Inr yss" and bs: "bs = concat yss"
    by auto
  let ?opens = "projr (mapM_res (open_path_branch env G c) (get_open_paths env G c center radius))"
  let ?g = "\<lambda>b. if b \<noteq> center then region_edge_branches env G c center b else ?opens"
  have yss: "yss = map ?g ?borders"
  proof (rule mapM_res_eq_map[OF m])
    fix b y assume "b \<in> set ?borders" and y: "branches_of_border env G c center radius b = Inr y"
    show "y = ?g b"
    proof (cases "b = center")
      case True
      then show ?thesis using y by (simp add: branches_of_border_def)
    next
      case False
      then have "get_branches_description_from_node env G c b = Inr y"
        using y by (simp add: branches_of_border_def)
      from get_branches_description_from_node_block[OF this assms(2)] False show ?thesis by simp
    qed
  qed
  have each: "\<forall>b\<in>set ?borders.
              if b \<noteq> center
              then get_branches_description_from_node env G c b =
                     Inr (region_edge_branches env G c center b)
              else \<exists>radius. get_radius env G c = Inr radius \<and>
                     mapM_res (open_path_branch env G c) (get_open_paths env G c center radius) =
                       Inr ?opens"
  proof
    fix b assume b: "b \<in> set ?borders"
    from mapM_res_projr[OF m] b have e: "branches_of_border env G c center radius b =
        Inr (projr (branches_of_border env G c center radius b))" by blast
    show "if b \<noteq> center
              then get_branches_description_from_node env G c b =
                     Inr (region_edge_branches env G c center b)
              else \<exists>radius. get_radius env G c = Inr radius \<and>
                     mapM_res (open_path_branch env G c) (get_open_paths env G c center radius) =
                       Inr ?opens"
    proof (cases "b = center")
      case True
      with e have "mapM_res (open_path_branch env G c) (get_open_paths env G c center radius) =
                       Inr ?opens" by (simp add: branches_of_border_def)
      with rad True show ?thesis by auto
    next
      case False
      with e have g: "get_branches_description_from_node env G c b =
          Inr (projr (branches_of_border env G c center radius b))"
        by (simp add: branches_of_border_def)
      from get_branches_description_from_node_block[OF g assms(2)] g False show ?thesis by simp
    qed
  qed
  have "branches c' = concat (map ?g ?borders)" using c' bs yss by simp
  with each show ?thesis by blast
qed

theorem C2_branches_of_boundary_node_witness:
  "build_branches_description ex_env ex_graph (ex_crossroad1\<lparr>branches := []\<rparr>) = Inr ex_crossroad1 \<and>
   getCenter (ex_crossroad1\<lparr>branches := []\<rparr>) = Inr 2 \<and>
   filter (is_boundary_node ex_env ex_graph (nodes ex_crossroad1) (edges ex_crossroad1))
     (nodes ex_crossroad1) = [1] \<and>
   region_edge_branches ex_env ex_graph (ex_crossroad1\<lparr>branches := []\<rparr>) 2 1 =
     [BranchDescription 90 (Some ''Main Street'')] \<and>
   branches ex_crossroad1 =
     region_edge_branches ex_env ex_graph (ex_crossroad1\<lparr>branches := []\<rparr>) 2 1 \<and>
   get_branches_description_from_node ex_env ex_graph (ex_crossroad1\<lparr>branches := []\<rparr>) 1 =
     Inr (region_edge_branches ex_env ex_graph (ex_crossroad1\<lparr>branches := []\<rparr>) 2 1)"
proof -
  let ?c = "ex_crossroad1\<lparr>branches := []\<rparr>"
  have a: "build_branches_description ex_env ex_graph ?c = Inr ex_crossroad1" by code_simp
  have d: "getCenter ?c = Inr 2" by (simp add: getCenter_def py_index_def ex_crossroad1_def)
  have b: "filter (is_boundary_node ex_env ex_graph (nodes ?c) (edges ?c)) (nodes ?c) = [1]"
    by (simp add: ex_crossroad1_def ex_env_def ex_graph_def)
  have r: "region_edge_branches ex_env ex_graph ?c 2 1 = [BranchDescription 90 (Some ''Main Street'')]"
    by (simp add: region_edge_branches_def has_edge_def ex_crossroad1_def ex_env_def edge_name_def
        ex_graph_def ex_attrs_def)
  from C2_branches_of_boundary_node [OF a d] obtain opens where
    e: "branches ex_crossroad1 =
          concat (map (\<lambda>b. if b \<noteq> 2 then region_edge_branches ex_env ex_graph ?c 2 b else opens)
                    (filter (is_boundary_node ex_env ex_graph (nodes ?c) (edges ?c)) (nodes ?c)))"
    and f: "\<forall>b\<in>set (filter (is_boundary_node ex_env ex_graph (nodes ?c) (edges ?c)) (nodes ?c)).
              if b \<noteq> 2
              then get_branches_description_from_node ex_env ex_graph ?c b =
                     Inr (region_edge_branches ex_env ex_graph ?c 2 b)
              else \<exists>radius. get_radius ex_env ex_graph ?c = Inr radius \<and>
                     mapM_res (open_path_branch ex_env ex_graph ?c)
                       (get_open_paths ex_env ex_graph ?c 2 radius) = Inr opens"
    by blast
  from e have g: "branches ex_crossroad1 = region_edge_branches ex_env ex_graph ?c 2 1"
    unfolding b by simp
  from f have h: "get_branches_description_from_node ex_env ex_graph ?c 1 =
      Inr (region_edge_branches ex_env ex_graph ?c 2 1)"
    unfolding b by simp
  have b': "filter (is_boundary_node ex_env ex_graph (nodes ex_crossroad1) (edges ex_crossroad1))
     (nodes ex_crossroad1) = [1]" using b by simp
  show ?thesis using a d b' r g h by (intro conjI)
qed

section \<open>The connection graph: stored connections\<close>

lemma mapM_res_elem:
  assumes "mapM_res f xs = Inr yss" and "ys \<in> set yss"
  shows "\<exists>x\<in>set xs. f x = Inr ys"
  using assms
proof (induction xs arbitrary: yss)
  case Nil
  then show ?case by simp
next
  case (Cons a xs)
  from Cons.prems(1) obtain y yss' where
    y: "f a = Inr y" and r: "mapM_res f xs = Inr yss'" and e: "yss = y # yss'"
    by (auto split: sum.splits)
  show ?case
  proof (cases "ys = y")
    case True
    then show ?thesis using y by simp
  next
    case False
    then have "ys \<in> set yss'" using Cons.prems(2) e by simp
    from Cons.IH[OF r this] show ?thesis by auto
  qed
qed

lemma concatM_res_elem:
  assumes "concatM_res f xs = Inr zs" and "z \<in> set zs"
  shows "\<exists>x\<in>set xs. \<exists>ys. f x = Inr ys \<and> z \<in> set ys"
proof -
  from assms(1) obtain yss where m: "mapM_res f xs = Inr yss" and zs: "zs = concat yss"
    by (auto simp: concatM_res_def bind_res_Inr_iff)
  from assms(2) zs obtain ys where "ys \<in> set yss" "z \<in> set ys" by auto
  with mapM_res_elem[OF m] show ?thesis by blast
qed

lemma initial_connection_elem:
  assumes "initial_connection mul rgs thr rbn cr l cr2 = Inr ys" and "c \<in> set ys"
  shows "fst c = cr \<and> fst (snd c) = cr2 \<and> snd (snd (snd c)) = l \<and>
         (\<exists>ra rb. dict_get rgs cr = Inr ra \<and> dict_get rgs cr2 = Inr rb \<and> r_id ra < r_id rb)"
  using assms
  by (auto simp: initial_connection_def bind_res_Inr_iff split: if_splits)

lemma compute_initial_connections_elem:
  assumes "compute_initial_connections mul rgs thr crs rbn adjs = Inr initial" and "c \<in> set initial"
  shows "\<exists>ra rb. dict_get rgs (fst c) = Inr ra \<and> dict_get rgs (fst (snd c)) = Inr rb \<and>
           r_id ra < r_id rb"
proof -
  from concatM_res_elem[OF assms[unfolded compute_initial_connections_def]]
  obtain cr ys1 adj_cr where 1: "dict_get adjs cr = Inr adj_cr"
    "concatM_res (\<lambda>l. bind_res (dict_get adjs l) (\<lambda>adj_l.
        concatM_res (initial_connection mul rgs thr rbn cr l) (map fst adj_l))) (map fst adj_cr) = Inr ys1"
    "c \<in> set ys1"
    by (auto simp: bind_res_Inr_iff)
  from concatM_res_elem[OF 1(2,3)]
  obtain l ys2 adj_l where 2: "dict_get adjs l = Inr adj_l"
    "concatM_res (initial_connection mul rgs thr rbn cr l) (map fst adj_l) = Inr ys2" "c \<in> set ys2"
    by (auto simp: bind_res_Inr_iff)
  from concatM_res_elem[OF 2(2,3)]
  obtain cr2 ys3 where 3: "initial_connection mul rgs thr rbn cr l cr2 = Inr ys3" "c \<in> set ys3"
    by auto
  from initial_connection_elem[OF 3] show ?thesis by auto
qed

lemma merge_connection_keys:
  "fst ` set (merge_connection m c) = insert (fst c, fst (snd c)) (fst ` set m)"
  by (auto simp: merge_connection_def Let_def dom_update split: option.splits)

lemma merge_connection_distinct:
  "distinct (map fst m) \<Longrightarrow> distinct (map fst (merge_connection m c))"
  by (auto simp: merge_connection_def Let_def distinct_update split: option.splits)

lemma fold_merge_connection_keys:
  "fst ` set (fold (\<lambda>c m. merge_connection m c) xs m) =
     fst ` set m \<union> (\<lambda>c. (fst c, fst (snd c))) ` set xs"
  by (induction xs arbitrary: m) (auto simp: merge_connection_keys)

lemma fold_merge_connection_distinct:
  "distinct (map fst m) \<Longrightarrow> distinct (map fst (fold (\<lambda>c m. merge_connection m c) xs m))"
  by (induction xs arbitrary: m) (auto simp: merge_connection_distinct)

lemma connected_crossroads_of_init:
  assumes "init_structure mul rgs thr = Inr cc"
  shows "regions cc = rgs \<and>
         (\<exists>initial merged.
            compute_initial_connections mul rgs thr (crossroads cc) (regionsByNode cc) (adjacencies cc)
              = Inr initial \<and>
            merged = fold (\<lambda>c m. merge_connection m c) initial [] \<and>
            connected_crossroads cc = map (\<lambda>kv. (fst (fst kv), snd (fst kv), snd kv)) merged)"
  using assms
  by (auto simp: init_structure_def compute_connected_crossroads_def Let_def bind_res_Inr_iff)

text \<open>
  C8. Every connection stored by \<open>CrossroadConnections\<close> is canonically ordered: for a
  stored triple \<open>(a, b, ev)\<close> the id of the region \<open>a\<close> is strictly less than the id
  of the region \<open>b\<close>, the pair is not also stored as \<open>(b, a)\<close>, no pair is stored
  twice, and \<open>get_pairs\<close> reports stored connections only.
\<close>

theorem C8_connections_canonically_ordered:
  assumes "init_structure mul rgs thr = Inr cc" and "(a, b, ev) \<in> set (connected_crossroads cc)"
  shows "(\<exists>ra rb. dict_get (regions cc) a = Inr ra \<and> dict_get (regions cc) b = Inr rb \<and>
            r_id ra < r_id rb) \<and>
         (\<forall>ev'. (b, a, ev') \<notin> set (connected_crossroads cc)) \<and>
         distinct (map (\<lambda>c. (fst c, fst (snd c))) (connected_crossroads cc)) \<and>
         set (get_pairs cc) \<subseteq> set (connected_crossroads cc)"
proof -
  from connected_crossroads_of_init[OF assms(1)] obtain initial where
    rg: "regions cc = rgs" and
    ini: "compute_initial_connections mul rgs thr (crossroads cc) (regionsByNode cc) (adjacencies cc)
            = Inr initial" and
    con: "connected_crossroads cc =
            map (\<lambda>kv. (fst (fst kv), snd (fst kv), snd kv)) (fold (\<lambda>c m. merge_connection m c) initial [])"
    by blast
  let ?merged = "fold (\<lambda>c m. merge_connection m c) initial []"
  have keys: "\<And>x y e. (x, y, e) \<in> set (connected_crossroads cc) \<Longrightarrow>
      \<exists>c\<in>set initial. fst c = x \<and> fst (snd c) = y"
  proof -
    fix x y e assume "(x, y, e) \<in> set (connected_crossroads cc)"
    then have "((x, y), e) \<in> set ?merged" using con by auto
    then have "(x, y) \<in> fst ` set ?merged" by force
    then show "\<exists>c\<in>set initial. fst c = x \<and> fst (snd c) = y"
      by (auto simp: fold_merge_connection_keys)
  qed
  have ord: "\<And>x y e. (x, y, e) \<in> set (connected_crossroads cc) \<Longrightarrow>
      \<exists>ra rb. dict_get rgs x = Inr ra \<and> dict_get rgs y = Inr rb \<and> r_id ra < r_id rb"
    using keys compute_initial_connections_elem[OF ini] by blast
  have 1: "\<exists>ra rb. dict_get (regions cc) a = Inr ra \<and> dict_get (regions cc) b = Inr rb \<and>
            r_id ra < r_id rb"
    using ord[OF assms(2)] rg by simp
  have 2: "\<forall>ev'. (b, a, ev') \<notin> set (connected_crossroads cc)"
  proof (intro allI notI)
    fix ev' assume "(b, a, ev') \<in> set (connected_crossroads cc)"
    from ord[OF this] ord[OF assms(2)] show False by auto
  qed
  have "distinct (map fst ?merged)" by (rule fold_merge_connection_distinct) simp
  moreover have "map (\<lambda>c. (fst c, fst (snd c))) (connected_crossroads cc) = map fst ?merged"
    using con by (simp add: comp_def)
  ultimately have 3: "distinct (map (\<lambda>c. (fst c, fst (snd c))) (connected_crossroads cc))" by simp
  have 4: "set (get_pairs cc) \<subseteq> set (connected_crossroads cc)" by (auto simp: get_pairs_def)
  from 1 2 3 4 show ?thesis by blast
qed

theorem C8_connections_canonically_ordered_witness:
  "\<exists>cc. init_structure ex_mul (ex_two_crossroads 15) 2 = Inr cc \<and>
     (0, 1, [([2, 5, 3], 2)]) \<in> set (connected_crossroads cc) \<and>
     (\<exists>ra rb. dict_get (regions cc) 0 = Inr ra \<and> dict_get (regions cc) 1 = Inr rb \<and>
        r_id ra < r_id rb) \<and>
     (1, 0, [([2, 5, 3], 2)]) \<notin> set (connected_crossroads cc)"
proof -
  have "map_sum id connected_crossroads (init_structure ex_mul (ex_two_crossroads 15) 2) =
          Inr [(0, 1, [([2, 5, 3], 2)])]"
    by code_simp
  then obtain cc where i: "init_structure ex_mul (ex_two_crossroads 15) 2 = Inr cc"
    and c: "connected_crossroads cc = [(0, 1, [([2, 5, 3], 2)])]"
    by (cases "init_structure ex_mul (ex_two_crossroads 15) 2") auto
  have m: "(0, 1, [([2, 5, 3], 2)]) \<in> set (connected_crossroads cc)" using c by simp
  from C8_connections_canonically_ordered [OF i m] i m show ?thesis by blast
qed

section \<open>The connection graph: the connection of a pair\<close>

lemma concatM_res_projr:
  "concatM_res f xs = Inr zs \<Longrightarrow>
     (\<forall>x\<in>set xs. f x = Inr (projr (f x))) \<and> zs = concat (map (\<lambda>x. projr (f x)) xs)"
  by (auto simp: concatM_res_def bind_res_Inr_iff dest: mapM_res_projr)

lemma concat_map_single:
  assumes "distinct xs" and "\<And>x. x \<in> set xs \<Longrightarrow> x \<noteq> a \<Longrightarrow> g x = []"
  shows "concat (map g xs) = (if a \<in> set xs then g a else [])"
  using assms by (induction xs) auto

lemma filter_concat_map: "filter P (concat (map g xs)) = concat (map (\<lambda>x. filter P (g x)) xs)"
  by (induction xs) auto

text \<open>The evidence that the merge collects for one pair.\<close>

lemma map_of_merge_connection:
  "map_of (merge_connection m c) k =
     (if (fst c, fst (snd c)) = k
      then Some ((case map_of m k of None \<Rightarrow> [] | Some e \<Rightarrow> e) @ [snd (snd c)])
      else map_of m k)"
  by (auto simp: merge_connection_def Let_def update_conv' split: option.splits)

lemma map_of_fold_merge_connection:
  "map_of (fold (\<lambda>c m. merge_connection m c) xs m) k =
     (let evs = map (\<lambda>c. snd (snd c)) (filter (\<lambda>c. (fst c, fst (snd c)) = k) xs) in
      case map_of m k of
        None \<Rightarrow> if evs = [] then None else Some evs
      | Some e \<Rightarrow> Some (e @ evs))"
proof (induction xs arbitrary: m)
  case Nil
  then show ?case by (simp split: option.splits)
next
  case (Cons c xs)
  show ?case
    by (simp add: Cons.IH Let_def map_of_merge_connection split: option.splits)
qed

lemma filter_key_distinct:
  "distinct (map fst m) \<Longrightarrow>
     filter (\<lambda>kv. fst kv = k) m = (case map_of m k of None \<Rightarrow> [] | Some v \<Rightarrow> [(k, v)])"
proof (induction m)
  case Nil
  then show ?case by simp
next
  case (Cons p m)
  then have d: "distinct (map fst m)" and n: "fst p \<notin> fst ` set m" by auto
  show ?case
  proof (cases "fst p = k")
    case True
    then have "map_of m k = None" using n by (simp add: map_of_eq_None_iff)
    then have "filter (\<lambda>kv. fst kv = k) m = []" using Cons.IH[OF d] by simp
    then show ?thesis using True by (cases p) simp
  next
    case False
    then show ?thesis using Cons.IH[OF d] by (cases p) auto
  qed
qed

lemma set_update_subset: "set (AList.update k v al) \<subseteq> insert (k, v) (set al)"
  by (induction al) auto

lemma add_adjacency_distinct:
  "distinct (map fst adj) \<Longrightarrow> distinct (map fst (add_adjacency crs lks r1 n adj r2))"
  by (auto simp: add_adjacency_def distinct_update split: option.splits)

lemma fold_add_adjacency_distinct:
  "distinct (map fst adj) \<Longrightarrow>
     distinct (map fst (fold (\<lambda>r2 adj. add_adjacency crs lks r1 n adj r2) rs adj))"
  by (induction rs arbitrary: adj) (simp_all add: add_adjacency_distinct)

lemma add_adjacencies_distinct:
  assumes "\<forall>p\<in>set adjs. distinct (map fst (snd p))"
  shows "\<forall>p\<in>set (add_adjacencies crs lks adjs r1 n rs). distinct (map fst (snd p))"
proof -
  let ?adj0 = "case map_of adjs r1 of None \<Rightarrow> [] | Some adj \<Rightarrow> adj"
  have "distinct (map fst ?adj0)"
  proof (cases "map_of adjs r1")
    case None
    then show ?thesis by simp
  next
    case (Some adj)
    then have "(r1, adj) \<in> set adjs" by (rule map_of_SomeD)
    with assms have "distinct (map fst (snd (r1, adj)))" by blast
    then show ?thesis using Some by simp
  qed
  then have "distinct (map fst (fold (\<lambda>r2 adj. add_adjacency crs lks r1 n adj r2) rs ?adj0))"
    by (rule fold_add_adjacency_distinct)
  then show ?thesis
    using assms set_update_subset[of r1 _ adjs]
    by (fastforce simp: add_adjacencies_def Let_def)
qed

lemma fold_add_adjacencies_distinct:
  assumes "\<forall>p\<in>set adjs. distinct (map fst (snd p))"
  shows "\<forall>p\<in>set (fold (\<lambda>r1 a'. add_adjacencies crs lks a' r1 n rs') rs adjs).
           distinct (map fst (snd p))"
  using assms
proof (induction rs arbitrary: adjs)
  case Nil
  then show ?case by simp
next
  case (Cons r rs)
  have "\<forall>p\<in>set (add_adjacencies crs lks adjs r n rs'). distinct (map fst (snd p))"
    using Cons.prems by (rule add_adjacencies_distinct)
  from Cons.IH[OF this] show ?case by simp
qed

lemma adjacencies_fold_distinct:
  assumes "\<forall>p\<in>set adjs. distinct (map fst (snd p))"
  shows "\<forall>p\<in>set (fold (\<lambda>nrs a. fold (\<lambda>r1 a'. add_adjacencies crs lks a' r1 (fst nrs) (snd nrs)) (snd nrs) a)
              rbn adjs). distinct (map fst (snd p))"
  using assms
proof (induction rbn arbitrary: adjs)
  case Nil
  then show ?case by simp
next
  case (Cons nrs rbn)
  have "\<forall>p\<in>set (fold (\<lambda>r1 a'. add_adjacencies crs lks a' r1 (fst nrs) (snd nrs)) (snd nrs) adjs).
          distinct (map fst (snd p))"
    using Cons.prems by (rule fold_add_adjacencies_distinct)
  from Cons.IH[OF this] show ?case by simp
qed

lemma build_adjacencies_distinct:
  "\<forall>p\<in>set (build_adjacencies crs lks rbn). distinct (map fst (snd p))"
  unfolding build_adjacencies_def by (rule adjacencies_fold_distinct) simp

lemma init_structure_adjacencies:
  "init_structure mul rgs thr = Inr cc \<Longrightarrow>
     adjacencies cc = build_adjacencies (crossroads cc) (links cc) (regionsByNode cc)"
  by (auto simp: init_structure_def Let_def bind_res_Inr_iff)

lemma init_structure_adjacencies_distinct:
  assumes "init_structure mul rgs thr = Inr cc" and "dict_get (adjacencies cc) l = Inr adj_l"
  shows "distinct (map fst adj_l)"
proof -
  have "\<forall>p\<in>set (adjacencies cc). distinct (map fst (snd p))"
    unfolding init_structure_adjacencies[OF assms(1)] by (rule build_adjacencies_distinct)
  moreover have "(l, adj_l) \<in> set (adjacencies cc)"
    using assms(2) by (auto simp: dict_get_def split: option.splits dest: map_of_SomeD)
  ultimately show ?thesis by fastforce
qed

lemma init_structure_crossroads_distinct:
  assumes "init_structure mul rgs thr = Inr cc" and "distinct (map fst rgs)"
  shows "distinct (crossroads cc)"
  using assms by (auto simp: init_structure_def Let_def bind_res_Inr_iff distinct_map_filter)

lemma concat_map_if_filter:
  "concat (map (\<lambda>x. if Q x then g x else []) xs) = concat (map g (filter Q xs))"
  by (induction xs) auto

lemma filter_all: "(\<And>x. x \<in> set xs \<Longrightarrow> P x) \<Longrightarrow> filter P xs = xs"
  by (induction xs) auto

lemma filter_none: "(\<And>x. x \<in> set xs \<Longrightarrow> \<not> P x) \<Longrightarrow> filter P xs = []"
  by (induction xs) auto

text \<open>The connections that one crossroad and one of its adjacent regions contribute.\<close>

lemma initial_connections_of_link:
  assumes f2: "bind_res (dict_get adjs l) (\<lambda>adj_l.
                 concatM_res (initial_connection mul rgs thr rbn a l) (map fst adj_l)) = Inr ys"
    and d: "\<And>adj. dict_get adjs l = Inr adj \<Longrightarrow> distinct (map fst adj)"
  shows "filter (\<lambda>c. fst c = a \<and> fst (snd c) = b) ys =
           (if b \<in> set (case map_of adjs l of None \<Rightarrow> [] | Some adj \<Rightarrow> map fst adj)
            then projr (initial_connection mul rgs thr rbn a l b) else [])"
proof -
  let ?P = "\<lambda>c. fst c = a \<and> fst (snd c) = b"
  let ?F = "initial_connection mul rgs thr rbn a l"
  from f2 obtain adj_l where al: "dict_get adjs l = Inr adj_l"
    and c: "concatM_res ?F (map fst adj_l) = Inr ys"
    by (auto simp: bind_res_Inr_iff)
  from concatM_res_projr[OF c] have ok: "\<forall>x\<in>set (map fst adj_l). ?F x = Inr (projr (?F x))"
    and ys: "ys = concat (map (\<lambda>x. projr (?F x)) (map fst adj_l))" by simp_all
  have keys: "(case map_of adjs l of None \<Rightarrow> [] | Some adj \<Rightarrow> map fst adj) = map fst adj_l"
    using al by (auto simp: dict_get_def split: option.splits)
  have other: "\<And>x. x \<in> set (map fst adj_l) \<Longrightarrow> x \<noteq> b \<Longrightarrow> filter ?P (projr (?F x)) = []"
  proof -
    fix x assume x: "x \<in> set (map fst adj_l)" and nb: "x \<noteq> b"
    from ok x have e: "?F x = Inr (projr (?F x))" by blast
    show "filter ?P (projr (?F x)) = []"
    proof (rule filter_none)
      fix c assume "c \<in> set (projr (?F x))"
      from initial_connection_elem[OF e this] nb show "\<not> ?P c" by simp
    qed
  qed
  have same: "b \<in> set (map fst adj_l) \<Longrightarrow> filter ?P (projr (?F b)) = projr (?F b)"
  proof -
    assume "b \<in> set (map fst adj_l)"
    with ok have e: "?F b = Inr (projr (?F b))" by blast
    show "filter ?P (projr (?F b)) = projr (?F b)"
    proof (rule filter_all)
      fix c assume "c \<in> set (projr (?F b))"
      from initial_connection_elem[OF e this] show "?P c" by simp
    qed
  qed
  have "filter ?P ys = concat (map (\<lambda>x. filter ?P (projr (?F x))) (map fst adj_l))"
    unfolding ys by (rule filter_concat_map)
  also have "\<dots> = (if b \<in> set (map fst adj_l) then filter ?P (projr (?F b)) else [])"
    by (rule concat_map_single[OF d[OF al]]) (rule other)
  also have "\<dots> = (if b \<in> set (map fst adj_l) then projr (?F b) else [])"
    using same by simp
  finally show ?thesis using keys by simp
qed

text \<open>The connections of the pair \<open>(a, b)\<close> in the initial list.\<close>

lemma initial_connections_of_pair:
  assumes ini: "compute_initial_connections mul rgs thr crs rbn adjs = Inr initial"
    and dc: "distinct crs" and a: "a \<in> set crs"
    and d: "\<And>r adj. dict_get adjs r = Inr adj \<Longrightarrow> distinct (map fst adj)"
  shows "filter (\<lambda>c. fst c = a \<and> fst (snd c) = b) initial =
           concat (map (\<lambda>l. projr (initial_connection mul rgs thr rbn a l b))
             (filter (\<lambda>l. b \<in> set (case map_of adjs l of None \<Rightarrow> [] | Some adj \<Rightarrow> map fst adj))
                (case map_of adjs a of None \<Rightarrow> [] | Some adj \<Rightarrow> map fst adj)))"
proof -
  let ?P = "\<lambda>c. fst c = a \<and> fst (snd c) = b"
  let ?F2 = "\<lambda>cr l. bind_res (dict_get adjs l) (\<lambda>adj_l.
               concatM_res (initial_connection mul rgs thr rbn cr l) (map fst adj_l))"
  let ?F1 = "\<lambda>cr. bind_res (dict_get adjs cr) (\<lambda>adj_cr. concatM_res (?F2 cr) (map fst adj_cr))"
  from concatM_res_projr[OF ini[unfolded compute_initial_connections_def]]
  have ok: "\<forall>cr\<in>set crs. ?F1 cr = Inr (projr (?F1 cr))"
    and init: "initial = concat (map (\<lambda>cr. projr (?F1 cr)) crs)" by simp_all
  have first: "\<And>cr ys c. ?F1 cr = Inr ys \<Longrightarrow> c \<in> set ys \<Longrightarrow> fst c = cr"
  proof -
    fix cr ys c assume f: "?F1 cr = Inr ys" and c: "c \<in> set ys"
    from f[unfolded bind_res_Inr_iff] obtain adj_cr where "dict_get adjs cr = Inr adj_cr"
      and cc: "concatM_res (?F2 cr) (map fst adj_cr) = Inr ys" by blast
    from concatM_res_elem[OF cc c] obtain l ys2 where "?F2 cr l = Inr ys2" and c2: "c \<in> set ys2"
      by blast
    then obtain adj_l where "dict_get adjs l = Inr adj_l" and
      c3: "concatM_res (initial_connection mul rgs thr rbn cr l) (map fst adj_l) = Inr ys2"
      unfolding bind_res_Inr_iff by blast
    from concatM_res_elem[OF c3 c2] obtain cr2 ys3 where
      "initial_connection mul rgs thr rbn cr l cr2 = Inr ys3" "c \<in> set ys3" by blast
    from initial_connection_elem[OF this] show "fst c = cr" by simp
  qed
  have other: "\<And>cr. cr \<in> set crs \<Longrightarrow> cr \<noteq> a \<Longrightarrow> filter ?P (projr (?F1 cr)) = []"
  proof -
    fix cr assume cr: "cr \<in> set crs" and na: "cr \<noteq> a"
    from ok cr have e: "?F1 cr = Inr (projr (?F1 cr))" by blast
    show "filter ?P (projr (?F1 cr)) = []"
    proof (rule filter_none)
      fix c assume "c \<in> set (projr (?F1 cr))"
      from first[OF e this] na show "\<not> ?P c" by simp
    qed
  qed
  from ok a have ea: "?F1 a = Inr (projr (?F1 a))" by blast
  then obtain adj_a where aa: "dict_get adjs a = Inr adj_a"
    and ca: "concatM_res (?F2 a) (map fst adj_a) = Inr (projr (?F1 a))"
    unfolding bind_res_Inr_iff by blast
  from concatM_res_projr[OF ca] have ok2: "\<forall>l\<in>set (map fst adj_a). ?F2 a l = Inr (projr (?F2 a l))"
    and ya: "projr (?F1 a) = concat (map (\<lambda>l. projr (?F2 a l)) (map fst adj_a))" by simp_all
  have keys: "(case map_of adjs a of None \<Rightarrow> [] | Some adj \<Rightarrow> map fst adj) = map fst adj_a"
    using aa by (auto simp: dict_get_def split: option.splits)
  have per_link: "\<And>l. l \<in> set (map fst adj_a) \<Longrightarrow>
      filter ?P (projr (?F2 a l)) =
        (if b \<in> set (case map_of adjs l of None \<Rightarrow> [] | Some adj \<Rightarrow> map fst adj)
         then projr (initial_connection mul rgs thr rbn a l b) else [])"
  proof -
    fix l assume "l \<in> set (map fst adj_a)"
    with ok2 have "?F2 a l = Inr (projr (?F2 a l))" by blast
    then show "filter ?P (projr (?F2 a l)) =
        (if b \<in> set (case map_of adjs l of None \<Rightarrow> [] | Some adj \<Rightarrow> map fst adj)
         then projr (initial_connection mul rgs thr rbn a l b) else [])"
      by (rule initial_connections_of_link) (rule d)
  qed
  have "filter ?P initial = concat (map (\<lambda>cr. filter ?P (projr (?F1 cr))) crs)"
    unfolding init by (rule filter_concat_map)
  also have "\<dots> = (if a \<in> set crs then filter ?P (projr (?F1 a)) else [])"
    by (rule concat_map_single[OF dc]) (rule other)
  also have "\<dots> = filter ?P (projr (?F1 a))" using a by simp
  also have "\<dots> = concat (map (\<lambda>l. filter ?P (projr (?F2 a l))) (map fst adj_a))"
    unfolding ya by (rule filter_concat_map)
  also have "\<dots> = concat (map (\<lambda>l.
        if b \<in> set (case map_of adjs l of None \<Rightarrow> [] | Some adj \<Rightarrow> map fst adj)
        then projr (initial_connection mul rgs thr rbn a l b) else []) (map fst adj_a))"
    using per_link by (simp cong: map_cong)
  also have "\<dots> = concat (map (\<lambda>l. projr (initial_connection mul rgs thr rbn a l b))
        (filter (\<lambda>l. b \<in> set (case map_of adjs l of None \<Rightarrow> [] | Some adj \<Rightarrow> map fst adj))
           (map fst adj_a)))"
    by (rule concat_map_if_filter)
  finally show ?thesis using keys by simp
qed

lemma init_structure_fields:
  "init_structure mul rgs thr = Inr cc \<Longrightarrow> regions cc = rgs \<and> connection_threshold cc = thr"
  by (auto simp: init_structure_def Let_def bind_res_Inr_iff)

text \<open>The stored connection of a pair, from the connections of the pair in the initial list.\<close>

lemma connected_crossroads_of_pair:
  assumes "init_structure mul rgs thr = Inr cc" and "distinct (map fst rgs)"
    and "a \<in> set (crossroads cc)"
  shows "filter (\<lambda>c. fst c = a \<and> fst (snd c) = b) (connected_crossroads cc) =
           (let evs = concat (map (\<lambda>l. map (\<lambda>c. snd (snd c))
                         (projr (initial_connection mul rgs thr (regionsByNode cc) a l b)))
                       (links_between cc a b))
            in if evs = [] then [] else [(a, b, evs)])"
proof -
  let ?P = "\<lambda>c. fst c = a \<and> fst (snd c) = b"
  let ?conv = "\<lambda>kv. (fst (fst kv), snd (fst kv), snd kv)"
  from connected_crossroads_of_init[OF assms(1)] obtain initial where
    ini: "compute_initial_connections mul rgs thr (crossroads cc) (regionsByNode cc) (adjacencies cc)
            = Inr initial" and
    con: "connected_crossroads cc = map ?conv (fold (\<lambda>c m. merge_connection m c) initial [])"
    by blast
  let ?merged = "fold (\<lambda>c m. merge_connection m c) initial []"
  have pair: "filter ?P initial =
      concat (map (\<lambda>l. projr (initial_connection mul rgs thr (regionsByNode cc) a l b))
        (links_between cc a b))"
    unfolding links_between_def adjacent_regions_def
    by (rule initial_connections_of_pair[OF ini init_structure_crossroads_distinct[OF assms(1,2)]
          assms(3) init_structure_adjacencies_distinct[OF assms(1)]])
  have evs: "map (\<lambda>c. snd (snd c)) (filter ?P initial) =
      concat (map (\<lambda>l. map (\<lambda>c. snd (snd c))
                  (projr (initial_connection mul rgs thr (regionsByNode cc) a l b)))
        (links_between cc a b))"
    unfolding pair by (simp add: map_concat comp_def)
  have key: "map_of ?merged (a, b) =
      (if map (\<lambda>c. snd (snd c)) (filter ?P initial) = [] then None
       else Some (map (\<lambda>c. snd (snd c)) (filter ?P initial)))"
    by (simp add: map_of_fold_merge_connection Let_def)
  have dm: "distinct (map fst ?merged)" by (rule fold_merge_connection_distinct) simp
  have "filter ?P (connected_crossroads cc) = map ?conv (filter (\<lambda>kv. fst kv = (a, b)) ?merged)"
    unfolding con filter_map by (rule arg_cong[where f = "map ?conv"], rule filter_cong) auto
  also have "\<dots> = map ?conv (case map_of ?merged (a, b) of None \<Rightarrow> [] | Some v \<Rightarrow> [((a, b), v)])"
    by (simp add: filter_key_distinct[OF dm])
  finally show ?thesis
    unfolding key evs by (simp add: Let_def)
qed

section \<open>The connection graph: adjacency\<close>

text \<open>The regions recorded for a node, and the keys recorded for a region.\<close>

lemma map_of_add_node_region:
  "map_of (add_node_region m rid nid) n =
     (if n = nid then Some ((case map_of m nid of None \<Rightarrow> [] | Some rs \<Rightarrow> rs) @ [rid])
      else map_of m n)"
  by (auto simp: add_node_region_def update_conv' split: option.splits)

lemma add_node_region_distinct:
  "distinct (map fst m) \<Longrightarrow> distinct (map fst (add_node_region m rid nid))"
  by (auto simp: add_node_region_def distinct_update split: option.splits)

lemma regions_of_node_fold_nodes:
  "(case map_of (fold (\<lambda>n m'. add_node_region m' rid n) ns m) n of None \<Rightarrow> {} | Some rs \<Rightarrow> set rs) =
     (case map_of m n of None \<Rightarrow> {} | Some rs \<Rightarrow> set rs) \<union> (if n \<in> set ns then {rid} else {})"
proof (induction ns arbitrary: m)
  case Nil
  then show ?case by simp
next
  case (Cons a ns)
  show ?case
    unfolding fold_simps Cons.IH
    by (auto simp: map_of_add_node_region split: option.splits)
qed

lemma fold_nodes_distinct:
  "distinct (map fst m) \<Longrightarrow> distinct (map fst (fold (\<lambda>n m'. add_node_region m' rid n) ns m))"
  by (induction ns arbitrary: m) (simp_all add: add_node_region_distinct)

lemma regions_of_node_fold_regions:
  "(case map_of (fold (\<lambda>kv m. fold (\<lambda>n m'. add_node_region m' (fst kv) n) (r_nodes (snd kv)) m) rgs m) n
      of None \<Rightarrow> {} | Some rs \<Rightarrow> set rs) =
     (case map_of m n of None \<Rightarrow> {} | Some rs \<Rightarrow> set rs) \<union>
     {rid. \<exists>r. (rid, r) \<in> set rgs \<and> n \<in> set (r_nodes r)}"
proof (induction rgs arbitrary: m)
  case Nil
  then show ?case by simp
next
  case (Cons kv rgs)
  show ?case
    unfolding fold_simps Cons.IH regions_of_node_fold_nodes
    by (cases kv) (auto split: if_splits)
qed

lemma fold_regions_distinct:
  "distinct (map fst m) \<Longrightarrow>
   distinct (map fst (fold (\<lambda>kv m. fold (\<lambda>n m'. add_node_region m' (fst kv) n) (r_nodes (snd kv)) m) rgs m))"
  by (induction rgs arbitrary: m) (simp_all add: fold_nodes_distinct)

lemma build_regionsByNode_regions:
  "(case map_of (build_regionsByNode rgs) n of None \<Rightarrow> {} | Some rs \<Rightarrow> set rs) =
     {rid. \<exists>r. (rid, r) \<in> set rgs \<and> n \<in> set (r_nodes r)}"
  unfolding build_regionsByNode_def regions_of_node_fold_regions by simp

lemma build_regionsByNode_distinct: "distinct (map fst (build_regionsByNode rgs))"
  unfolding build_regionsByNode_def by (rule fold_regions_distinct) simp

lemma add_adjacency_keys:
  "fst ` set (add_adjacency crs lks r1 n adj r2) =
     fst ` set adj \<union>
     (if r2 \<noteq> r1 \<and> get_typology crs lks r1 \<noteq> get_typology crs lks r2 then {r2} else {})"
  by (auto simp: add_adjacency_def dom_update split: option.splits)


lemma fold_add_adjacency_keys:
  "fst ` set (fold (\<lambda>r2 adj. add_adjacency crs lks r1 n adj r2) rs adj) =
     fst ` set adj \<union>
     {r2 \<in> set rs. r2 \<noteq> r1 \<and> get_typology crs lks r1 \<noteq> get_typology crs lks r2}"
proof (induction rs arbitrary: adj)
  case Nil
  then show ?case by simp
next
  case (Cons a rs)
  show ?case unfolding fold_simps Cons.IH add_adjacency_keys by auto
qed


lemma add_adjacencies_keys:
  "(case map_of (add_adjacencies crs lks adjs r1 n rs) r of None \<Rightarrow> {} | Some adj \<Rightarrow> fst ` set adj) =
     (case map_of adjs r of None \<Rightarrow> {} | Some adj \<Rightarrow> fst ` set adj) \<union>
     (if r = r1
      then {r2 \<in> set rs. r2 \<noteq> r1 \<and> get_typology crs lks r1 \<noteq> get_typology crs lks r2}
      else {})"
  by (auto simp: add_adjacencies_def Let_def update_conv' fold_add_adjacency_keys
      split: option.splits)


lemma fold_add_adjacencies_keys:
  "(case map_of (fold (\<lambda>r1 a'. add_adjacencies crs lks a' r1 n rs) rs' adjs) r
      of None \<Rightarrow> {} | Some adj \<Rightarrow> fst ` set adj) =
     (case map_of adjs r of None \<Rightarrow> {} | Some adj \<Rightarrow> fst ` set adj) \<union>
     (if r \<in> set rs'
      then {r2 \<in> set rs. r2 \<noteq> r \<and> get_typology crs lks r \<noteq> get_typology crs lks r2}
      else {})"
proof (induction rs' arbitrary: adjs)
  case Nil
  then show ?case by simp
next
  case (Cons a rs')
  show ?case unfolding fold_simps Cons.IH add_adjacencies_keys by auto
qed


lemma adjacencies_fold_keys:
  "(case map_of (fold (\<lambda>nrs a. fold (\<lambda>r1 a'. add_adjacencies crs lks a' r1 (fst nrs) (snd nrs))
                               (snd nrs) a) rbn adjs) r
      of None \<Rightarrow> {} | Some adj \<Rightarrow> fst ` set adj) =
     (case map_of adjs r of None \<Rightarrow> {} | Some adj \<Rightarrow> fst ` set adj) \<union>
     {r2. \<exists>nrs\<in>set rbn. r \<in> set (snd nrs) \<and> r2 \<in> set (snd nrs) \<and> r2 \<noteq> r \<and>
            get_typology crs lks r \<noteq> get_typology crs lks r2}"
proof (induction rbn arbitrary: adjs)
  case Nil
  then show ?case by simp
next
  case (Cons a rbn)
  show ?case unfolding fold_simps Cons.IH fold_add_adjacencies_keys by auto
qed


lemma build_adjacencies_keys:
  "(case map_of (build_adjacencies crs lks rbn) r of None \<Rightarrow> {} | Some adj \<Rightarrow> fst ` set adj) =
     {r2. \<exists>nrs\<in>set rbn. r \<in> set (snd nrs) \<and> r2 \<in> set (snd nrs) \<and> r2 \<noteq> r \<and>
            get_typology crs lks r \<noteq> get_typology crs lks r2}"
  unfolding build_adjacencies_def adjacencies_fold_keys by simp


lemma shares_node_iff:
  assumes "distinct (map fst rgs)"
  shows "shares_node rgs x y \<longleftrightarrow>
           (\<exists>nrs\<in>set (build_regionsByNode rgs). x \<in> set (snd nrs) \<and> y \<in> set (snd nrs))"
proof -
  let ?R = "\<lambda>n. case map_of (build_regionsByNode rgs) n of None \<Rightarrow> {} | Some rs \<Rightarrow> set rs"
  have mem: "\<And>rid r. (rid, r) \<in> set rgs \<longleftrightarrow> map_of rgs rid = Some r"
    using assms by (metis map_of_eq_Some_iff)
  have R: "\<And>n. ?R n = {rid. \<exists>r. map_of rgs rid = Some r \<and> n \<in> set (r_nodes r)}"
    unfolding build_regionsByNode_regions mem by simp
  have ent: "\<And>n rs. (n, rs) \<in> set (build_regionsByNode rgs) \<longleftrightarrow>
      map_of (build_regionsByNode rgs) n = Some rs"
    using build_regionsByNode_distinct by (metis map_of_eq_Some_iff)
  have "(\<exists>nrs\<in>set (build_regionsByNode rgs). x \<in> set (snd nrs) \<and> y \<in> set (snd nrs)) \<longleftrightarrow>
        (\<exists>n. x \<in> ?R n \<and> y \<in> ?R n)"
  proof
    assume "\<exists>nrs\<in>set (build_regionsByNode rgs). x \<in> set (snd nrs) \<and> y \<in> set (snd nrs)"
    then obtain n rs where "(n, rs) \<in> set (build_regionsByNode rgs)" "x \<in> set rs" "y \<in> set rs"
      by auto
    then have "x \<in> ?R n \<and> y \<in> ?R n" using ent by simp
    then show "\<exists>n. x \<in> ?R n \<and> y \<in> ?R n" ..
  next
    assume "\<exists>n. x \<in> ?R n \<and> y \<in> ?R n"
    then obtain n where n: "x \<in> ?R n" "y \<in> ?R n" by blast
    then obtain rs where "map_of (build_regionsByNode rgs) n = Some rs" "x \<in> set rs" "y \<in> set rs"
      by (auto split: option.splits)
    then show "\<exists>nrs\<in>set (build_regionsByNode rgs). x \<in> set (snd nrs) \<and> y \<in> set (snd nrs)"
      using ent by force
  qed
  also have "\<dots> \<longleftrightarrow> shares_node rgs x y"
    unfolding R by (auto simp: shares_node_def list_ex_iff split: option.splits)
  finally show ?thesis by simp
qed


lemma init_structure_regionsByNode:
  "init_structure mul rgs thr = Inr cc \<Longrightarrow> regionsByNode cc = build_regionsByNode rgs"
  by (auto simp: init_structure_def Let_def bind_res_Inr_iff)


text \<open>The keys of \<open>adjacencies[r]\<close> are the regions that touch \<open>r\<close>.\<close>


lemma adjacent_regions_touches:
  assumes "init_structure mul rgs thr = Inr cc" and "distinct (map fst rgs)"
  shows "set (adjacent_regions cc r) = {y. touches cc r y}"
proof -
  have rg: "regions cc = rgs" using init_structure_fields[OF assms(1)] by simp
  have "set (adjacent_regions cc r) =
      (case map_of (adjacencies cc) r of None \<Rightarrow> {} | Some adj \<Rightarrow> fst ` set adj)"
    by (simp add: adjacent_regions_def split: option.splits)
  also have "\<dots> = {r2. \<exists>nrs\<in>set (build_regionsByNode rgs). r \<in> set (snd nrs) \<and> r2 \<in> set (snd nrs) \<and>
      r2 \<noteq> r \<and> get_typology (crossroads cc) (links cc) r \<noteq> get_typology (crossroads cc) (links cc) r2}"
    unfolding init_structure_adjacencies[OF assms(1)] init_structure_regionsByNode[OF assms(1)]
    by (rule build_adjacencies_keys)
  also have "\<dots> = {y. touches cc r y}"
    unfolding touches_def rg shares_node_iff[OF assms(2)] by auto
  finally show ?thesis .
qed


lemma adjacent_regions_distinct:
  assumes "init_structure mul rgs thr = Inr cc"
  shows "distinct (adjacent_regions cc r)"
proof (cases "map_of (adjacencies cc) r")
  case None
  then show ?thesis by (simp add: adjacent_regions_def)
next
  case (Some adj)
  then have "dict_get (adjacencies cc) r = Inr adj" by (simp add: dict_get_def)
  from init_structure_adjacencies_distinct[OF assms this] Some
  show ?thesis by (simp add: adjacent_regions_def)
qed

lemma distinct_singleton: "distinct xs \<Longrightarrow> set xs = {l} \<Longrightarrow> xs = [l]"
proof (cases xs)
  case Nil
  assume "set xs = {l}"
  with Nil show ?thesis by simp
next
  case (Cons x ys)
  assume d: "distinct xs" and s: "set xs = {l}"
  from s Cons have x: "x = l" by auto
  from d Cons have "x \<notin> set ys" by simp
  moreover from s Cons have "set ys \<subseteq> {l}" by auto
  ultimately have "ys = []" using x by (cases ys) auto
  then show ?thesis using Cons x by simp
qed

text \<open>The regions that link two regions are those that touch both, each met once.\<close>

lemma links_between_touches:
  assumes "init_structure mul rgs thr = Inr cc" and "distinct (map fst rgs)"
  shows "set (links_between cc a b) = {r. touches cc a r \<and> touches cc r b}"
    and "distinct (links_between cc a b)"
proof -
  show "set (links_between cc a b) = {r. touches cc a r \<and> touches cc r b}"
    unfolding links_between_def using adjacent_regions_touches[OF assms] by auto
  show "distinct (links_between cc a b)"
    unfolding links_between_def
    by (rule distinct_filter) (rule adjacent_regions_distinct[OF assms(1)])
qed

lemma links_between_single:
  assumes "init_structure mul rgs thr = Inr cc" and "distinct (map fst rgs)"
    and "\<forall>r. (touches cc a r \<and> touches cc r b) = (r = l)"
  shows "links_between cc a b = [l]"
proof -
  have "set (links_between cc a b) = {l}"
    unfolding links_between_touches(1)[OF assms(1,2)] using assms(3) by auto
  with links_between_touches(2)[OF assms(1,2)] show ?thesis by (rule distinct_singleton)
qed

lemma init_structure_crossroads_member:
  assumes "init_structure mul rgs thr = Inr cc" and "dict_get rgs a = Inr ra" and "is_crossroad ra"
  shows "a \<in> set (crossroads cc)"
proof -
  have "(a, ra) \<in> set rgs"
    using assms(2) by (auto simp: dict_get_def split: option.splits dest: map_of_SomeD)
  then have "a \<in> set (map fst (filter (\<lambda>kv. is_crossroad (snd kv)) rgs))"
    using assms(3) by force
  moreover have "crossroads cc = map fst (filter (\<lambda>kv. is_crossroad (snd kv)) rgs)"
    using assms(1) by (auto simp: init_structure_def Let_def bind_res_Inr_iff)
  ultimately show ?thesis by simp
qed

text \<open>
  C4 (amended). For two crossroads \<open>a\<close> and \<open>b\<close>, the id of \<open>a\<close> below the id of
  \<open>b\<close>, such that exactly one region \<open>l\<close> touches both (it has a member node in common
  with each and is of another typology than each), with \<open>d\<close> the length of the path in \<open>l\<close> between
  the nodes shared with each: when \<open>d\<close> is below the product of the larger branch width
  and the connection threshold, as the code computes this product in float arithmetic
  (\<open>mul\<close>, whatever its rounding is), the stored connections hold exactly one connection
  between the pair, with the single evidence \<open>(path, l)\<close>; otherwise they hold none. In
  both cases \<open>get_pairs\<close> reports nothing for the pair, since it keeps only the
  connections with more than one evidence.
\<close>

theorem C4_single_link_connection:
  assumes "init_structure mul rgs thr = Inr cc" and "distinct (map fst rgs)"
    and "dict_get rgs a = Inr ra" and "is_crossroad ra"
    and "dict_get rgs b = Inr rb" and "r_id ra < r_id rb"
    and "\<forall>r. (touches cc a r \<and> touches cc r b) = (r = l)"
    and "get_path_in_link rgs (regionsByNode cc) l a b = Inr (path, d)"
  shows "(d < mul (max (max_branch_width ra) (max_branch_width rb)) (connection_threshold cc) \<longrightarrow>
            filter (\<lambda>c. fst c = a \<and> fst (snd c) = b) (connected_crossroads cc) =
              [(a, b, [(path, l)])]) \<and>
         (\<not> d < mul (max (max_branch_width ra) (max_branch_width rb)) (connection_threshold cc) \<longrightarrow>
            filter (\<lambda>c. fst c = a \<and> fst (snd c) = b) (connected_crossroads cc) = []) \<and>
         filter (\<lambda>c. fst c = a \<and> fst (snd c) = b) (get_pairs cc) = []"
proof -
  let ?P = "\<lambda>c. fst c = a \<and> fst (snd c) = b"
  have thr: "connection_threshold cc = thr" using init_structure_fields[OF assms(1)] by simp
  have mem: "a \<in> set (crossroads cc)"
    by (rule init_structure_crossroads_member[OF assms(1,3,4)])
  have one: "links_between cc a b = [l]" by (rule links_between_single[OF assms(1,2,7)])
  have ic: "initial_connection mul rgs thr (regionsByNode cc) a l b =
      Inr (if d < mul (max (max_branch_width ra) (max_branch_width rb)) thr
           then [(a, b, (path, l))] else [])"
    using assms(3,5,6,8) by (simp add: initial_connection_def bind_res_def)
  have c: "filter ?P (connected_crossroads cc) =
      (if d < mul (max (max_branch_width ra) (max_branch_width rb)) thr
       then [(a, b, [(path, l)])] else [])"
    unfolding connected_crossroads_of_pair[OF assms(1,2) mem] one by (simp add: ic)
  have "filter ?P (get_pairs cc) =
      filter (\<lambda>connected. length (snd (snd connected)) > 1) (filter ?P (connected_crossroads cc))"
    unfolding get_pairs_def filter_filter by (rule filter_cong) auto
  then have "filter ?P (get_pairs cc) = []" unfolding c by simp
  with c thr show ?thesis by simp
qed

lemma ex_two_near:
  "map_sum id (\<lambda>cc. (links_between cc 0 1,
       get_path_in_link (ex_two_crossroads 15) (regionsByNode cc) 2 0 1))
     (init_structure ex_mul (ex_two_crossroads 15) 2) =
   Inr ([2], Inr ([2, 5, 3], 15))"
  by code_simp

lemma ex_two_far:
  "map_sum id (\<lambda>cc. (links_between cc 0 1,
       get_path_in_link (ex_two_crossroads 500) (regionsByNode cc) 2 0 1))
     (init_structure ex_mul (ex_two_crossroads 500) 2) =
   Inr ([2], Inr ([2, 5, 3], 500))"
  by code_simp

text \<open>
  With the two crossroads 15 metres apart (less than the threshold of 20 metres) the one
  connection of the pair is stored, with its single evidence, and \<open>get_pairs\<close>, which
  keeps the connections with more than one evidence, reports nothing.
\<close>

theorem C4_counterexample:
  "map_sum id connected_crossroads (init_structure ex_mul (ex_two_crossroads 15) 2) =
     Inr [(0, 1, [([2, 5, 3], 2)])] \<and>
   map_sum id get_pairs (init_structure ex_mul (ex_two_crossroads 15) 2) = Inr []"
  by code_simp

theorem C4_single_link_connection_witness:
  "15 < ex_mul 10 2 \<and> \<not> 500 < ex_mul 10 2 \<and>
   (\<exists>cc. init_structure ex_mul (ex_two_crossroads 15) 2 = Inr cc \<and>
      touches cc 0 2 \<and> touches cc 2 1 \<and> links_between cc 0 1 = [2] \<and>
      get_path_in_link (ex_two_crossroads 15) (regionsByNode cc) 2 0 1 = Inr ([2, 5, 3], 15) \<and>
      filter (\<lambda>c. fst c = 0 \<and> fst (snd c) = 1) (connected_crossroads cc) = [(0, 1, [([2, 5, 3], 2)])] \<and>
      filter (\<lambda>c. fst c = 0 \<and> fst (snd c) = 1) (get_pairs cc) = []) \<and>
   (\<exists>cc. init_structure ex_mul (ex_two_crossroads 500) 2 = Inr cc \<and>
      touches cc 0 2 \<and> touches cc 2 1 \<and> links_between cc 0 1 = [2] \<and>
      get_path_in_link (ex_two_crossroads 500) (regionsByNode cc) 2 0 1 = Inr ([2, 5, 3], 500) \<and>
      filter (\<lambda>c. fst c = 0 \<and> fst (snd c) = 1) (connected_crossroads cc) = [] \<and>
      filter (\<lambda>c. fst c = 0 \<and> fst (snd c) = 1) (get_pairs cc) = [])"
proof -
  have k: "\<And>len. distinct (map fst (ex_two_crossroads len))" by (simp add: ex_two_crossroads_def)
  have r: "\<And>len. dict_get (ex_two_crossroads len) 0 = Inr (ex_crossroad_region 0 [1, 2] 10)"
    "\<And>len. dict_get (ex_two_crossroads len) 1 = Inr (ex_crossroad_region 1 [3, 4] 8)"
    by (simp_all add: dict_get_def ex_two_crossroads_def)
  have cr: "is_crossroad (ex_crossroad_region 0 [1, 2] 10)" by (simp add: ex_crossroad_region_def)
  have i: "r_id (ex_crossroad_region 0 [1, 2] 10) < r_id (ex_crossroad_region 1 [3, 4] 8)"
    by (simp add: ex_crossroad_region_def)
  have w: "max (max_branch_width (ex_crossroad_region 0 [1, 2] 10))
             (max_branch_width (ex_crossroad_region 1 [3, 4] 8)) = 10"
    by (simp add: ex_crossroad_region_def)
  obtain cn where n: "init_structure ex_mul (ex_two_crossroads 15) 2 = Inr cn"
    using ex_two_near by (cases "init_structure ex_mul (ex_two_crossroads 15) 2") auto
  from ex_two_near n have fn: "links_between cn 0 1 = [2]"
    "get_path_in_link (ex_two_crossroads 15) (regionsByNode cn) 2 0 1 = Inr ([2, 5, 3], 15)"
    by simp_all
  have sn: "{r. touches cn 0 r \<and> touches cn r 1} = {2}"
    using links_between_touches(1)[OF n k, of 0 1] fn(1) by simp
  then have un: "\<forall>r. (touches cn 0 r \<and> touches cn r 1) = (r = 2)" by blast
  have tn: "connection_threshold cn = 2" using init_structure_fields[OF n] by simp
  from C4_single_link_connection [OF n k r(1) cr r(2) i un fn(2)] w tn
  have near: "filter (\<lambda>c. fst c = 0 \<and> fst (snd c) = 1) (connected_crossroads cn) =
                [(0, 1, [([2, 5, 3], 2)])]"
    "filter (\<lambda>c. fst c = 0 \<and> fst (snd c) = 1) (get_pairs cn) = []"
    by (simp_all add: ex_mul_def)
  obtain cf where f: "init_structure ex_mul (ex_two_crossroads 500) 2 = Inr cf"
    using ex_two_far by (cases "init_structure ex_mul (ex_two_crossroads 500) 2") auto
  from ex_two_far f have ff: "links_between cf 0 1 = [2]"
    "get_path_in_link (ex_two_crossroads 500) (regionsByNode cf) 2 0 1 = Inr ([2, 5, 3], 500)"
    by simp_all
  have sf: "{r. touches cf 0 r \<and> touches cf r 1} = {2}"
    using links_between_touches(1)[OF f k, of 0 1] ff(1) by simp
  then have uf: "\<forall>r. (touches cf 0 r \<and> touches cf r 1) = (r = 2)" by blast
  have tf: "connection_threshold cf = 2" using init_structure_fields[OF f] by simp
  from C4_single_link_connection [OF f k r(1) cr r(2) i uf ff(2)] w tf
  have far: "filter (\<lambda>c. fst c = 0 \<and> fst (snd c) = 1) (connected_crossroads cf) = []"
    "filter (\<lambda>c. fst c = 0 \<and> fst (snd c) = 1) (get_pairs cf) = []"
    by (simp_all add: ex_mul_def)
  have "touches cn 0 2 \<and> touches cn 2 1" "touches cf 0 2 \<and> touches cf 2 1"
    using un uf by simp_all
  then have "(\<exists>cc. init_structure ex_mul (ex_two_crossroads 15) 2 = Inr cc \<and>
      touches cc 0 2 \<and> touches cc 2 1 \<and> links_between cc 0 1 = [2] \<and>
      get_path_in_link (ex_two_crossroads 15) (regionsByNode cc) 2 0 1 = Inr ([2, 5, 3], 15) \<and>
      filter (\<lambda>c. fst c = 0 \<and> fst (snd c) = 1) (connected_crossroads cc) = [(0, 1, [([2, 5, 3], 2)])] \<and>
      filter (\<lambda>c. fst c = 0 \<and> fst (snd c) = 1) (get_pairs cc) = []) \<and>
   (\<exists>cc. init_structure ex_mul (ex_two_crossroads 500) 2 = Inr cc \<and>
      touches cc 0 2 \<and> touches cc 2 1 \<and> links_between cc 0 1 = [2] \<and>
      get_path_in_link (ex_two_crossroads 500) (regionsByNode cc) 2 0 1 = Inr ([2, 5, 3], 500) \<and>
      filter (\<lambda>c. fst c = 0 \<and> fst (snd c) = 1) (connected_crossroads cc) = [] \<and>
      filter (\<lambda>c. fst c = 0 \<and> fst (snd c) = 1) (get_pairs cc) = [])"
    using n fn near f ff far by blast
  then show ?thesis by (simp add: ex_mul_def)
qed

section \<open>The connection graph: cycles\<close>












section \<open>The connection graph: three crossroads\<close>



















section \<open>Clustering: the merge of clusters\<close>

lemma distinct_concat_partition:
  "distinct (concat xs) \<Longrightarrow>
     distinct (concat (filter P xs) @ concat (filter (\<lambda>x. \<not> P x) xs))"
  by (induction xs) auto

lemma set_concat_partition:
  "set (concat (filter P xs)) \<union> set (concat (filter (\<lambda>x. \<not> P x) xs)) = set (concat xs)"
  by (induction xs) auto

lemma cluster_invariant_matches:
  assumes "cluster_invariant s"
  shows "length (filter (\<lambda>c. cr \<in> set c) (result s)) \<le> 1"
proof -
  have d: "distinct (concat (result s))" using assms by (simp add: cluster_invariant_def)
  have "\<And>xs. distinct (concat xs) \<Longrightarrow> length (filter (\<lambda>c. cr \<in> set c) xs) \<le> 1"
  proof -
    fix xs :: "crossroad list list"
    show "distinct (concat xs) \<Longrightarrow> length (filter (\<lambda>c. cr \<in> set c) xs) \<le> 1"
    proof (induction xs)
      case Nil
      then show ?case by simp
    next
      case (Cons x xs)
      show ?case
      proof (cases "cr \<in> set x")
        case True
        then have "\<forall>c\<in>set xs. cr \<notin> set c" using Cons.prems by auto
        then have "filter (\<lambda>c. cr \<in> set c) xs = []" by (simp add: filter_empty_conv)
        then show ?thesis using True by simp
      next
        case False
        then show ?thesis using Cons by simp
      qed
    qed
  qed
  from this[OF d] show ?thesis .
qed

lemma cluster_invariant_neighbor:
  assumes "cluster_invariant s" and "get_clusters_neighbor env G crossroad s cr = Inr s'"
  shows "cluster_invariant s'"
proof -
  from assms(2) obtain same where sm: "in_same_cluster env G crossroad cr = Inr same"
    by (auto simp: get_clusters_neighbor_def bind_res_Inr_iff)
  let ?other = "filter (\<lambda>c. cr \<in> set c) (result s)"
  consider (no) "\<not> same" | (new) "same" "region_id cr \<notin> set (visited s)"
    | (err) "same" "region_id cr \<in> set (visited s)" "length ?other \<noteq> 1"
    | (merge) "same" "region_id cr \<in> set (visited s)" "length ?other = 1"
    by blast
  then show ?thesis
  proof cases
    case no
    then have "s' = s" using assms(2) sm by (simp add: get_clusters_neighbor_def bind_res_def)
    then show ?thesis using assms(1) by simp
  next
    case new
    then have s': "s' = s\<lparr>visited := visited s @ [region_id cr], cluster := cluster s @ [cr]\<rparr>"
      using assms(2) sm by (simp add: get_clusters_neighbor_def bind_res_def)
    have "cr \<notin> set (cluster s @ concat (result s))"
      using assms(1) new(2) by (auto simp: cluster_invariant_def)
    then show ?thesis using assms(1) unfolding s' by (auto simp: cluster_invariant_def)
  next
    case err
    then have "s' = s\<lparr>printed := printed s @ [''Error while merging two clusters'']\<rparr>"
      using assms(2) sm by (simp add: get_clusters_neighbor_def bind_res_def Let_def)
    then show ?thesis using assms(1) by (simp add: cluster_invariant_def)
  next
    case merge
    then have s': "s' = s\<lparr>cluster := cluster s @ hd ?other,
                          result := filter (\<lambda>c. cr \<notin> set c) (result s)\<rparr>"
      using assms(2) sm by (simp add: get_clusters_neighbor_def bind_res_def Let_def)
    from merge(3) obtain o1 where o: "?other = [o1]" by (cases ?other) auto
    have d: "distinct (concat ?other @ concat (filter (\<lambda>c. cr \<notin> set c) (result s)))"
      using assms(1) distinct_concat_partition[of "result s" "\<lambda>c. cr \<in> set c"]
      by (simp add: cluster_invariant_def)
    have e: "set (concat ?other) \<union> set (concat (filter (\<lambda>c. cr \<notin> set c) (result s))) =
               set (concat (result s))"
      using set_concat_partition[of "\<lambda>c. cr \<in> set c" "result s"] by simp
    have dc: "distinct (cluster s)" and dj: "set (cluster s) \<inter> set (concat (result s)) = {}"
      and vs: "\<forall>c\<in>set (cluster s @ concat (result s)). region_id c \<in> set (visited s)"
      using assms(1) by (auto simp: cluster_invariant_def)
    have "distinct (cluster s @ o1 @ concat (filter (\<lambda>c. cr \<notin> set c) (result s)))"
      using d dc dj e unfolding o by auto
    moreover have "set (cluster s @ o1 @ concat (filter (\<lambda>c. cr \<notin> set c) (result s))) =
        set (cluster s @ concat (result s))"
      using e unfolding o by auto
    ultimately show ?thesis using vs unfolding s' o by (simp add: cluster_invariant_def)
  qed
qed

lemma cluster_invariant_crossroad:
  assumes "cluster_invariant (s\<lparr>cluster := []\<rparr>)"
    and "get_clusters_crossroad env G crs s crossroad = Inr s'"
  shows "cluster_invariant (s'\<lparr>cluster := []\<rparr>)"
proof (cases "region_id crossroad \<in> set (visited s)")
  case True
  then have "s' = s" using assms(2) by (simp add: get_clusters_crossroad_def)
  then show ?thesis using assms(1) by simp
next
  case False
  let ?s0 = "s\<lparr>visited := visited s @ [region_id crossroad], cluster := [crossroad]\<rparr>"
  from assms(2) False obtain nbh s1 where
    f: "foldM_res (get_clusters_neighbor env G crossroad) ?s0 nbh = Inr s1" and
    s': "s' = (if length (cluster s1) > 1 then s1\<lparr>result := result s1 @ [cluster s1]\<rparr> else s1)"
    by (auto simp: get_clusters_crossroad_def bind_res_Inr_iff)
  have "crossroad \<notin> set (concat (result s))"
    using assms(1) False by (auto simp: cluster_invariant_def)
  then have i0: "cluster_invariant ?s0" using assms(1) by (auto simp: cluster_invariant_def)
  have i1: "cluster_invariant s1"
    using f i0 by (rule foldM_res_invariant) (rule cluster_invariant_neighbor)
  show ?thesis using i1 unfolding s' by (auto simp: cluster_invariant_def)
qed

text \<open>
  The crossroads of the current cluster and of the clusters found so far stay pairwise
  distinct through both loops of \<open>get_clusters\<close>: at every step of a run, at most one
  of the clusters found so far contains a given crossroad.
\<close>

lemma get_clusters_loop_invariant:
  assumes "foldM_res (get_clusters_crossroad env G crs)
             \<lparr>cluster = [], result = [], visited = [], printed = []\<rparr> xs = Inr s"
  shows "cluster_invariant (s\<lparr>cluster := []\<rparr>)"
  using assms
proof (rule foldM_res_invariant)
  show "cluster_invariant (\<lparr>cluster = [], result = [], visited = [], printed = []\<rparr>\<lparr>cluster := []\<rparr>)"
    by (simp add: cluster_invariant_def)
next
  fix a x b
  assume "cluster_invariant (a\<lparr>cluster := []\<rparr>)" "get_clusters_crossroad env G crs a x = Inr b"
  then show "cluster_invariant (b\<lparr>cluster := []\<rparr>)" by (rule cluster_invariant_crossroad)
qed

text \<open>
  When the number of the clusters found so far that contain an already visited, matching
  crossroad is not exactly one, the loop body prints the diagnostic and changes nothing
  else. On the two crossroads of the small network the second matches the first, which
  is visited and in no cluster: the diagnostic is printed and no cluster is found.
\<close>

lemma get_clusters_neighbor_diagnostic:
  assumes "in_same_cluster env G crossroad cr = Inr True" and "region_id cr \<in> set (visited s)"
    and "length (filter (\<lambda>c. cr \<in> set c) (result s)) \<noteq> 1"
  shows "get_clusters_neighbor env G crossroad s cr =
           Inr (s\<lparr>printed := printed s @ [''Error while merging two clusters'']\<rparr>)"
  using assms by (simp add: get_clusters_neighbor_def bind_res_def Let_def)

lemma ex_clusters_step:
  "get_clusters_neighbor ex_env_clusters ex_graph ex_crossroad1 ex_no_claim ex_crossroad0 =
     Inr (ex_no_claim\<lparr>printed := [''Error while merging two clusters'']\<rparr>)"
  by code_simp

lemma ex_clusters_run:
  "get_clusters ex_env_clusters ex_graph [ex_crossroad0, ex_crossroad1] =
     Inr ([], [''Error while merging two clusters''])"
  by code_simp

end
